theory Spec2Isabelle
  imports Main
begin

section \<open>The Drive folder downloader (downloader.py)\<close>

text \<open>
  A shallow embedding of \<^verbatim>\<open>GoogleDriveDownloader\<close>: \<^verbatim>\<open>get_folder_id\<close>,
  \<^verbatim>\<open>list_files_in_folder\<close>, \<^verbatim>\<open>download_file\<close> and \<^verbatim>\<open>download_folder\<close>.
  The program is a sequence of calls into the Drive client library and the operating
  system, so the model makes both explicit:
  \<^item> the remote service and the operating system's answers are fields of a record
    \<open>env\<close>, fixed for one run;
  \<^item> the local filesystem is a map from paths to nodes, passed through every function
    and returned updated;
  \<^item> every call that leaves the program (a Drive request, a filesystem call, a
    \<^verbatim>\<open>print\<close>, an \<^verbatim>\<open>input\<close>) is an \<open>event\<close>; each function returns the
    events it caused, in order;
  \<^item> an exception is a value of type \<open>exc\<close>.
\<close>

subsection \<open>Python strings and \<^verbatim>\<open>posixpath\<close>\<close>

text \<open>
  A Python \<^verbatim>\<open>str\<close> is modelled as a \<open>string\<close> (a list of 8-bit characters, read as
  code points below 256); \<^verbatim>\<open>bytes\<close> likewise.
\<close>

type_synonym path = string
type_synonym bytes = string

text \<open>\<^verbatim>\<open>s.startswith(p)\<close> and \<^verbatim>\<open>s.endswith(p)\<close>.\<close>

definition startswith :: "string \<Rightarrow> string \<Rightarrow> bool" where
  "startswith s p \<longleftrightarrow> take (length p) s = p"

definition endswith :: "string \<Rightarrow> string \<Rightarrow> bool" where
  "endswith s p \<longleftrightarrow> length p \<le> length s \<and> drop (length s - length p) s = p"

text \<open>
  \<^verbatim>\<open>s.isalnum()\<close>: every character is alphanumeric and there is at least one. A
  character is alphanumeric when \<^verbatim>\<open>isalpha\<close>, \<^verbatim>\<open>isdecimal\<close>, \<^verbatim>\<open>isdigit\<close> or
  \<^verbatim>\<open>isnumeric\<close> holds of it. Among the code points below 256 these are the ASCII
  digits and letters, and in Latin-1 the ordinal indicators (170, 186), the superscript
  digits (178, 179, 185), the micro sign (181), the vulgar fractions (188 to 190) and
  the letters 192 to 255 without the multiplication sign (215) and the division sign
  (247).
\<close>

definition isalnum_char :: "char \<Rightarrow> bool" where
  "isalnum_char c \<longleftrightarrow>
     (let n = of_char c :: nat in
      (48 \<le> n \<and> n \<le> 57) \<or> (65 \<le> n \<and> n \<le> 90) \<or> (97 \<le> n \<and> n \<le> 122) \<or>
      n = 170 \<or> (178 \<le> n \<and> n \<le> 179) \<or> n = 181 \<or> (185 \<le> n \<and> n \<le> 186) \<or>
      (188 \<le> n \<and> n \<le> 190) \<or> (192 \<le> n \<and> n \<le> 214) \<or> (216 \<le> n \<and> n \<le> 246) \<or>
      (248 \<le> n \<and> n \<le> 255))"

definition isalnum :: "string \<Rightarrow> bool" where
  "isalnum s \<longleftrightarrow> s \<noteq> [] \<and> list_all isalnum_char s"

text \<open>
  \<^verbatim>\<open>os.path\<close> is \<^verbatim>\<open>posixpath\<close> (the separator is \<^verbatim>\<open>/\<close>).
  \<^verbatim>\<open>
  def dirname(p):
      i = p.rfind('/') + 1
      head = p[:i]
      if head and head != '/'*len(head):
          head = head.rstrip('/')
      return head
  def join(a, b):
      if b.startswith('/'):   path = b
      elif not a or a.endswith('/'):  path = a + b
      else:  path = a + '/' + b
      return path
  \<close>
\<close>

definition sep :: char where
  "sep = CHR ''/''"

definition rstrip_sep :: "string \<Rightarrow> string" where
  "rstrip_sep s = rev (dropWhile (\<lambda>c. c = sep) (rev s))"

definition os_path_dirname :: "path \<Rightarrow> path" where
  "os_path_dirname p =
     (let head = rev (dropWhile (\<lambda>c. c \<noteq> sep) (rev p)) in
      if head \<noteq> [] \<and> head \<noteq> replicate (length head) sep then rstrip_sep head else head)"

definition os_path_join :: "path \<Rightarrow> string \<Rightarrow> path" where
  "os_path_join a b =
     (if startswith b [sep] then b
      else if a = [] \<or> endswith a [sep] then a @ b
      else a @ [sep] @ b)"

subsection \<open>Exceptions, the remote service and the operating system\<close>

text \<open>
  Only subclasses of \<^verbatim>\<open>Exception\<close> are modelled (\<^verbatim>\<open>KeyboardInterrupt\<close> is not one,
  and ends the process).
\<close>

datatype exc =
    HttpError string
  | OSError string
  | EOFError
  | NotAuthenticated

text \<open>An entry of a listing: the fields \<^verbatim>\<open>files(id, name, mimeType, size)\<close>.\<close>

record remote_file =
  rf_id :: string
  rf_name :: string
  rf_mimeType :: string
  rf_size :: "nat option"

text \<open>An entry of a folder lookup: the fields \<^verbatim>\<open>files(id, name)\<close>.\<close>

record folder =
  fo_id :: string
  fo_name :: string

text \<open>
  What \<^verbatim>\<open>MediaIoBaseDownload.next_chunk\<close> gives, call after call: a chunk and
  \<^verbatim>\<open>done = False\<close>, the last chunk and \<^verbatim>\<open>done = True\<close>, or an exception. The
  transfer of one file is a finite sequence of such answers.
\<close>

datatype chunk_stream =
    Last_chunk bytes
  | Chunk bytes chunk_stream
  | Chunk_error exc

datatype node = Dir | File bytes

type_synonym fs = "path \<rightharpoonup> node"

text \<open>
  The world outside the program, as one run sees it.
  \<^item> \<open>service_ready\<close>: \<^verbatim>\<open>self.service\<close> is set (\<^verbatim>\<open>authenticate\<close> has run).
  \<^item> \<open>folders_by_name\<close>: the answer to the folder query of \<^verbatim>\<open>get_folder_id\<close>.
  \<^item> \<open>answers\<close>: what \<^verbatim>\<open>int(input(...))\<close> gives, read after read: a number, or
    \<open>None\<close> for a \<^verbatim>\<open>ValueError\<close>; after the last one \<^verbatim>\<open>input\<close> raises
    \<^verbatim>\<open>EOFError\<close>.
  \<^item> \<open>children\<close>: the answer to the listing query of \<^verbatim>\<open>list_files_in_folder\<close>.
  \<^item> \<open>metadata\<close>: the answer to \<^verbatim>\<open>files().get(fileId=...)\<close>, reduced to the entry
    \<^verbatim>\<open>mimeType\<close> of the dictionary (\<open>None\<close> when the key is absent).
  \<^item> \<open>media\<close>, \<open>exported\<close>: the transfers behind \<^verbatim>\<open>get_media\<close> and
    \<^verbatim>\<open>export_media\<close>.
  \<^item> \<open>stat_denied\<close>: paths where \<^verbatim>\<open>os.path.exists\<close> answers \<^verbatim>\<open>False\<close> whatever
    is there (\<^verbatim>\<open>os.stat\<close> is not permitted).
  \<^item> \<open>makedirs_error\<close>, \<open>write_error\<close>: paths where \<^verbatim>\<open>os.makedirs\<close> and
    \<^verbatim>\<open>open(path, 'wb')\<close> raise (permissions, a read-only volume).
\<close>

record env =
  service_ready :: bool
  folders_by_name :: "string \<Rightarrow> exc + folder list"
  answers :: "int option list"
  children :: "string \<Rightarrow> exc + remote_file list"
  metadata :: "string \<Rightarrow> exc + string option"
  media :: "string \<Rightarrow> chunk_stream"
  exported :: "string \<Rightarrow> string \<Rightarrow> chunk_stream"
  stat_denied :: "path \<Rightarrow> bool"
  makedirs_error :: "path \<Rightarrow> exc option"
  write_error :: "path \<Rightarrow> exc option"

text \<open>The \<^verbatim>\<open>print\<close> statements, by source line, with the values they show.\<close>

datatype msg =
    Msg_multiple_folders string          \<comment> \<open>line 103\<close>
  | Msg_candidate nat string string      \<comment> \<open>line 105\<close>
  | Msg_invalid_choice                   \<comment> \<open>line 113\<close>
  | Msg_enter_valid_number               \<comment> \<open>line 115\<close>
  | Msg_skipping string                  \<comment> \<open>line 174\<close>
  | Msg_saved_to path                    \<comment> \<open>line 194\<close>
  | Msg_not_at_expected_location path    \<comment> \<open>line 196\<close>
  | Msg_error_downloading string exc     \<comment> \<open>line 201\<close>
  | Msg_attempting path                  \<comment> \<open>line 216\<close>
  | Msg_absolute_path path               \<comment> \<open>line 217\<close>
  | Msg_parent_missing path              \<comment> \<open>line 222\<close>
  | Msg_parent_created                   \<comment> \<open>line 225\<close>
  | Msg_parent_failed exc                \<comment> \<open>line 227\<close>
  | Msg_target_ready path                \<comment> \<open>line 233\<close>
  | Msg_target_failed exc                \<comment> \<open>line 235\<close>
  | Msg_folder_not_found string          \<comment> \<open>line 246\<close>
  | Msg_downloading_from string          \<comment> \<open>line 249\<close>
  | Msg_no_files                         \<comment> \<open>line 255\<close>
  | Msg_found nat                        \<comment> \<open>line 258\<close>
  | Msg_downloading nat nat string       \<comment> \<open>line 267\<close>
  | Msg_downloaded string                \<comment> \<open>line 270\<close>
  | Msg_complete nat nat                 \<comment> \<open>line 273\<close>

text \<open>
  The calls that leave the program. A filesystem call carries its outcome, the listing
  call its answer.
\<close>

datatype event =
    Print msg
  | Ev_input
  | Ev_exists path bool
  | Ev_makedirs path "exc option"
  | Ev_lookup string
  | Ev_list string "exc + remote_file list"
  | Ev_get_metadata string
  | Ev_get_media string
  | Ev_export_media string string
  | Ev_write path bytes "exc option"

subsection \<open>The filesystem calls\<close>

text \<open>
  Paths are compared as strings: the model has no current directory, no symbolic links
  and no normalisation (\<^verbatim>\<open>a//b\<close> and \<^verbatim>\<open>a/b\<close> are two paths).

  \<^verbatim>\<open>os.path.exists(p)\<close>.
\<close>

definition os_path_exists :: "env \<Rightarrow> fs \<Rightarrow> path \<Rightarrow> bool" where
  "os_path_exists e fs p \<longleftrightarrow> fs p \<noteq> None \<and> \<not> stat_denied e p"

text \<open>
  The directories above \<open>p\<close>, nearest first, as \<^verbatim>\<open>os.makedirs\<close> walks them with
  \<^verbatim>\<open>os.path.dirname\<close>; the walk ends at the empty path and at a path that is its own
  directory (\<^verbatim>\<open>/\<close>). The first argument bounds the walk; the length of \<open>p\<close> is
  enough, since each step shortens the path.
\<close>

primrec ancestors_upto :: "nat \<Rightarrow> path \<Rightarrow> path list" where
  "ancestors_upto 0 p = []"
| "ancestors_upto (Suc n) p =
     (let d = os_path_dirname p in
      if d = [] \<or> d = p then [] else d # ancestors_upto n d)"

definition ancestors :: "path \<Rightarrow> path list" where
  "ancestors p = ancestors_upto (length p) p"

definition is_file :: "fs \<Rightarrow> path \<Rightarrow> bool" where
  "is_file fs p \<longleftrightarrow> (case fs p of Some (File b) \<Rightarrow> True | _ \<Rightarrow> False)"

definition mkdir_all :: "path list \<Rightarrow> fs \<Rightarrow> fs" where
  "mkdir_all ps fs = fold (\<lambda>q f. f(q \<mapsto> Dir)) ps fs"

text \<open>
  \<^verbatim>\<open>os.makedirs(p, exist_ok=True)\<close>: raises where the environment says so, on the empty
  path, and when \<open>p\<close> or a directory above it is a file; otherwise \<open>p\<close> and every
  directory above it are directories afterwards.
\<close>

definition os_makedirs :: "env \<Rightarrow> path \<Rightarrow> fs \<Rightarrow> exc + fs" where
  "os_makedirs e p fs =
     (case makedirs_error e p of
        Some x \<Rightarrow> Inl x
      | None \<Rightarrow>
          if p = [] then Inl (OSError ''FileNotFoundError'')
          else if list_ex (is_file fs) (p # ancestors p) then Inl (OSError ''FileExistsError'')
          else Inr (mkdir_all (p # ancestors p) fs))"

text \<open>
  \<^verbatim>\<open>with open(p, 'wb') as f: f.write(data)\<close>: raises where the environment says so,
  on a path that is empty or ends with the separator, on a directory, and when the
  directory of \<open>p\<close> is not there; a call that raises changes nothing. Otherwise the
  file at \<open>p\<close> holds exactly \<open>data\<close> afterwards, whatever it held before.
\<close>

definition os_write :: "env \<Rightarrow> path \<Rightarrow> bytes \<Rightarrow> fs \<Rightarrow> exc + fs" where
  "os_write e p data fs =
     (case write_error e p of
        Some x \<Rightarrow> Inl x
      | None \<Rightarrow>
          if p = [] \<or> endswith p [sep] then Inl (OSError ''IsADirectoryError'')
          else if fs p = Some Dir then Inl (OSError ''IsADirectoryError'')
          else if os_path_dirname p \<noteq> [] \<and> fs (os_path_dirname p) \<noteq> Some Dir
            then Inl (OSError ''FileNotFoundError'')
          else Inr (fs(p \<mapsto> File data)))"

subsection \<open>\<^verbatim>\<open>download_file\<close> (lines 136 to 202)\<close>

text \<open>The two dictionaries of lines 152 to 157 and 163 to 168.\<close>

definition export_formats :: "(string \<times> string) list" where
  "export_formats =
     [(''application/vnd.google-apps.document'',
         ''application/vnd.openxmlformats-officedocument.wordprocessingml.document''),
      (''application/vnd.google-apps.spreadsheet'',
         ''application/vnd.openxmlformats-officedocument.spreadsheetml.sheet''),
      (''application/vnd.google-apps.presentation'',
         ''application/vnd.openxmlformats-officedocument.presentationml.presentation''),
      (''application/vnd.google-apps.drawing'', ''image/png'')]"

definition extensions :: "(string \<times> string) list" where
  "extensions =
     [(''application/vnd.openxmlformats-officedocument.wordprocessingml.document'', ''.docx''),
      (''application/vnd.openxmlformats-officedocument.spreadsheetml.sheet'', ''.xlsx''),
      (''application/vnd.openxmlformats-officedocument.presentationml.presentation'', ''.pptx''),
      (''image/png'', ''.png'')]"

text \<open>
  Lines 181 to 186: the buffer \<^verbatim>\<open>fh\<close> and the loop over \<^verbatim>\<open>next_chunk\<close>, which
  ends with the whole content or with the exception of a chunk.
\<close>

fun next_chunks :: "bytes \<Rightarrow> chunk_stream \<Rightarrow> exc + bytes" where
  "next_chunks fh (Last_chunk b) = Inr (fh @ b)"
| "next_chunks fh (Chunk b rest) = next_chunks (fh @ b) rest"
| "next_chunks fh (Chunk_error x) = Inl x"

text \<open>The events \<open>pre\<close> came before those of the run \<open>r\<close>.\<close>

definition preceded_by :: "event list \<Rightarrow> 'a \<times> fs \<times> event list \<Rightarrow> 'a \<times> fs \<times> event list" where
  "preceded_by pre r = (case r of (x, fs, evs) \<Rightarrow> (x, fs, pre @ evs))"

text \<open>
  Lines 180 to 202, after the request has been chosen: transfer, write, check, report.
  \<open>req\<close> is the event of the request and \<open>stream\<close> its transfer. Every exception
  ends in the handler of line 200, which prints and returns \<^verbatim>\<open>False\<close>.
\<close>

definition transfer_and_save ::
  "env \<Rightarrow> event \<Rightarrow> chunk_stream \<Rightarrow> string \<Rightarrow> path \<Rightarrow> fs \<Rightarrow> bool \<times> fs \<times> event list"
where
  "transfer_and_save e req stream file_name download_path fs =
     (case next_chunks [] stream of
        Inl x \<Rightarrow> (False, fs, [req, Print (Msg_error_downloading file_name x)])
      | Inr data \<Rightarrow>
          (case os_write e download_path data fs of
             Inl x \<Rightarrow>
               (False, fs,
                [req, Ev_write download_path data (Some x),
                 Print (Msg_error_downloading file_name x)])
           | Inr fs' \<Rightarrow>
               (let found = os_path_exists e fs' download_path in
                (True, fs',
                 [req, Ev_write download_path data None, Ev_exists download_path found,
                  Print (if found then Msg_saved_to download_path
                         else Msg_not_at_expected_location download_path)]))))"

definition download_file ::
  "env \<Rightarrow> string \<Rightarrow> string \<Rightarrow> path \<Rightarrow> fs \<Rightarrow> bool \<times> fs \<times> event list"
where
  "download_file e file_id file_name download_path fs =
     (case metadata e file_id of
        Inl x \<Rightarrow> (False, fs, [Ev_get_metadata file_id, Print (Msg_error_downloading file_name x)])
      | Inr md \<Rightarrow>
          (let mime_type = (case md of None \<Rightarrow> [] | Some m \<Rightarrow> m) in
           if startswith mime_type ''application/vnd.google-apps.'' then
             (case map_of export_formats mime_type of
                None \<Rightarrow> (False, fs, [Ev_get_metadata file_id, Print (Msg_skipping file_name)])
              | Some export_mime_type \<Rightarrow>
                  if export_mime_type = []
                  then (False, fs, [Ev_get_metadata file_id, Print (Msg_skipping file_name)])
                  else
                    (let ext = (case map_of extensions export_mime_type of
                                  None \<Rightarrow> [] | Some x \<Rightarrow> x) in
                     if \<not> endswith file_name ext
                     then preceded_by [Ev_get_metadata file_id]
                            (transfer_and_save e (Ev_export_media file_id export_mime_type)
                               (exported e file_id export_mime_type) (file_name @ ext)
                               (os_path_join (os_path_dirname download_path) (file_name @ ext)) fs)
                     else preceded_by [Ev_get_metadata file_id]
                            (transfer_and_save e (Ev_export_media file_id export_mime_type)
                               (exported e file_id export_mime_type) file_name download_path fs)))
           else preceded_by [Ev_get_metadata file_id]
                  (transfer_and_save e (Ev_get_media file_id) (media e file_id)
                     file_name download_path fs)))"

subsection \<open>\<^verbatim>\<open>get_folder_id\<close> (lines 84 to 115) and \<^verbatim>\<open>list_files_in_folder\<close> (lines 117 to 134)\<close>

text \<open>
  Lines 107 to 115: the loop over \<^verbatim>\<open>int(input(...)) - 1\<close>. A \<^verbatim>\<open>ValueError\<close> and a
  number out of range ask again; the end of the input raises \<^verbatim>\<open>EOFError\<close>, which
  nothing here catches.
\<close>

fun choose_folder :: "folder list \<Rightarrow> int option list \<Rightarrow> (exc + string) \<times> event list" where
  "choose_folder folders [] = (Inl EOFError, [Ev_input])"
| "choose_folder folders (None # rest) =
     (case choose_folder folders rest of
        (r, evs) \<Rightarrow> (r, Ev_input # Print Msg_enter_valid_number # evs))"
| "choose_folder folders (Some n # rest) =
     (let choice = n - 1 in
      if 0 \<le> choice \<and> choice < int (length folders)
      then (Inr (fo_id (folders ! nat choice)), [Ev_input])
      else (case choose_folder folders rest of
              (r, evs) \<Rightarrow> (r, Ev_input # Print Msg_invalid_choice # evs)))"

text \<open>The result is \<open>Inr None\<close> for \<^verbatim>\<open>return None\<close>, and \<open>Inl\<close> for an exception.\<close>

definition get_folder_id :: "env \<Rightarrow> string \<Rightarrow> (exc + string option) \<times> event list" where
  "get_folder_id e folder_name =
     (case folders_by_name e folder_name of
        Inl x \<Rightarrow> (Inl x, [Ev_lookup folder_name])
      | Inr folders \<Rightarrow>
          if folders = [] then (Inr None, [Ev_lookup folder_name])
          else if length folders = 1 then (Inr (Some (fo_id (folders ! 0))), [Ev_lookup folder_name])
          else
            (case choose_folder folders (answers e) of
               (r, evs) \<Rightarrow>
                 (map_sum id Some r,
                  [Ev_lookup folder_name, Print (Msg_multiple_folders folder_name)]
                  @ map (\<lambda>(i, f). Print (Msg_candidate (i + 1) (fo_name f) (fo_id f)))
                      (enumerate 0 folders)
                  @ evs)))"

definition list_files_in_folder :: "env \<Rightarrow> string \<Rightarrow> (exc + remote_file list) \<times> event list" where
  "list_files_in_folder e folder_id =
     (children e folder_id, [Ev_list folder_id (children e folder_id)])"

subsection \<open>\<^verbatim>\<open>download_folder\<close> (lines 204 to 273)\<close>

text \<open>
  Lines 260 to 271: the loop over \<^verbatim>\<open>enumerate(files, 1)\<close>, with the counter \<open>i\<close>,
  \<^verbatim>\<open>len(files)\<close> as \<open>n_files\<close> and \<^verbatim>\<open>success_count\<close>.
\<close>

fun download_each ::
  "env \<Rightarrow> path \<Rightarrow> nat \<Rightarrow> nat \<Rightarrow> nat \<Rightarrow> remote_file list \<Rightarrow> fs \<Rightarrow> nat \<times> fs \<times> event list"
where
  "download_each e local_path n_files i success_count [] fs = (success_count, fs, [])"
| "download_each e local_path n_files i success_count (file # rest) fs =
     (let file_name = rf_name file;
          file_id = rf_id file;
          file_path = os_path_join local_path file_name
      in case download_file e file_id file_name file_path fs of
           (ok, fs1, evs1) \<Rightarrow>
             preceded_by
               (Print (Msg_downloading i n_files file_name) # evs1
                @ (if ok then [Print (Msg_downloaded file_name)] else []))
               (download_each e local_path n_files (i + 1)
                  (if ok then success_count + 1 else success_count) rest fs1))"

text \<open>
  The result of \<^verbatim>\<open>download_folder\<close> and of its parts is \<open>None\<close> when the function
  returns (every \<^verbatim>\<open>return\<close> of it is a bare one, so the value is \<^verbatim>\<open>None\<close>), and
  \<open>Some x\<close> when it raises \<open>x\<close>.

  Lines 249 to 273: list, loop, report.
\<close>

definition sync_files :: "env \<Rightarrow> string \<Rightarrow> path \<Rightarrow> fs \<Rightarrow> exc option \<times> fs \<times> event list" where
  "sync_files e folder_id local_path fs =
     (case list_files_in_folder e folder_id of
        (Inl x, evs) \<Rightarrow> (Some x, fs, Print (Msg_downloading_from folder_id) # evs)
      | (Inr files, evs) \<Rightarrow>
          if files = []
          then (None, fs, Print (Msg_downloading_from folder_id) # evs @ [Print Msg_no_files])
          else
            (case download_each e local_path (length files) 1 0 files fs of
               (success_count, fs', evs') \<Rightarrow>
                 (None, fs',
                  Print (Msg_downloading_from folder_id) # evs
                  @ [Print (Msg_found (length files))] @ evs'
                  @ [Print (Msg_complete success_count (length files))])))"

text \<open>Lines 238 to 273: the folder id, then the rest.\<close>

definition resolve_and_sync :: "env \<Rightarrow> string \<Rightarrow> path \<Rightarrow> fs \<Rightarrow> exc option \<times> fs \<times> event list" where
  "resolve_and_sync e folder_identifier local_path fs =
     (if length folder_identifier = 33 \<and> isalnum folder_identifier
      then sync_files e folder_identifier local_path fs
      else
        (case get_folder_id e folder_identifier of
           (Inl x, evs) \<Rightarrow> (Some x, fs, evs)
         | (Inr None, evs) \<Rightarrow> (None, fs, evs @ [Print (Msg_folder_not_found folder_identifier)])
         | (Inr (Some folder_id), evs) \<Rightarrow>
             if folder_id = []
             then (None, fs, evs @ [Print (Msg_folder_not_found folder_identifier)])
             else preceded_by evs (sync_files e folder_id local_path fs)))"

text \<open>Lines 230 to 273: the target directory, then the rest.\<close>

definition create_target :: "env \<Rightarrow> string \<Rightarrow> path \<Rightarrow> fs \<Rightarrow> exc option \<times> fs \<times> event list" where
  "create_target e folder_identifier local_path fs =
     (case os_makedirs e local_path fs of
        Inl x \<Rightarrow> (None, fs, [Ev_makedirs local_path (Some x), Print (Msg_target_failed x)])
      | Inr fs1 \<Rightarrow>
          preceded_by [Ev_makedirs local_path None, Print (Msg_target_ready local_path)]
            (resolve_and_sync e folder_identifier local_path fs1))"

definition download_folder :: "env \<Rightarrow> string \<Rightarrow> path \<Rightarrow> fs \<Rightarrow> exc option \<times> fs \<times> event list" where
  "download_folder e folder_identifier local_path fs =
     (if \<not> service_ready e then (Some NotAuthenticated, fs, [])
      else
        (let parent_dir = os_path_dirname local_path in
         preceded_by [Print (Msg_attempting local_path), Print (Msg_absolute_path local_path)]
           (if parent_dir \<noteq> [] \<and> \<not> os_path_exists e fs parent_dir
            then
              (case os_makedirs e parent_dir fs of
                 Inl x \<Rightarrow>
                   (None, fs,
                    [Ev_exists parent_dir False, Print (Msg_parent_missing parent_dir),
                     Ev_makedirs parent_dir (Some x), Print (Msg_parent_failed x)])
               | Inr fs1 \<Rightarrow>
                   preceded_by
                     [Ev_exists parent_dir False, Print (Msg_parent_missing parent_dir),
                      Ev_makedirs parent_dir None, Print Msg_parent_created]
                     (create_target e folder_identifier local_path fs1))
            else
              preceded_by (if parent_dir \<noteq> [] then [Ev_exists parent_dir True] else [])
                (create_target e folder_identifier local_path fs))))"

subsection \<open>Example worlds\<close>

text \<open>
  A folder \<^verbatim>\<open>Reports\<close> with four files: a text file, a native document, a native
  form (a type with no export format) and a file whose metadata request fails.
\<close>

definition ex_files :: "remote_file list" where
  "ex_files =
     [\<lparr>rf_id = ''txt1'', rf_name = ''notes.txt'', rf_mimeType = ''text/plain'', rf_size = Some 5\<rparr>,
      \<lparr>rf_id = ''doc1'', rf_name = ''Plan'',
         rf_mimeType = ''application/vnd.google-apps.document'', rf_size = None\<rparr>,
      \<lparr>rf_id = ''form1'', rf_name = ''Survey'',
         rf_mimeType = ''application/vnd.google-apps.form'', rf_size = None\<rparr>,
      \<lparr>rf_id = ''gone'', rf_name = ''old.bin'',
         rf_mimeType = ''application/octet-stream'', rf_size = Some 9\<rparr>]"

definition ex_env :: env where
  "ex_env =
     \<lparr>service_ready = True,
      folders_by_name =
        (\<lambda>n. if n = ''Reports'' then Inr [\<lparr>fo_id = ''F1'', fo_name = ''Reports''\<rparr>] else Inr []),
      answers = [],
      children = (\<lambda>f. if f = ''F1'' then Inr ex_files else Inr []),
      metadata =
        (\<lambda>i. if i = ''txt1'' then Inr (Some ''text/plain'')
              else if i = ''doc1'' then Inr (Some ''application/vnd.google-apps.document'')
              else if i = ''form1'' then Inr (Some ''application/vnd.google-apps.form'')
              else Inl (HttpError ''404'')),
      media =
        (\<lambda>i. if i = ''txt1'' then Chunk ''he'' (Last_chunk ''llo'')
              else Chunk_error (HttpError ''403'')),
      exported =
        (\<lambda>i m. if i = ''doc1'' then Last_chunk ''DOCX'' else Chunk_error (HttpError ''403'')),
      stat_denied = (\<lambda>p. False),
      makedirs_error = (\<lambda>p. None),
      write_error = (\<lambda>p. None)\<rparr>"

text \<open>A filesystem that holds the directory \<^verbatim>\<open>out\<close> and nothing else.\<close>

definition ex_fs :: fs where
  "ex_fs = [''out'' \<mapsto> Dir]"

text \<open>The same world, where \<^verbatim>\<open>os.path.exists\<close> cannot see \<^verbatim>\<open>out/notes.txt\<close>.\<close>

definition ex_env_hidden :: env where
  "ex_env_hidden = ex_env\<lparr>stat_denied := (\<lambda>p. p = ''out/notes.txt'')\<rparr>"

text \<open>
  A native document whose name holds a separator, \<^verbatim>\<open>Q1/plan\<close>, and a filesystem
  where \<^verbatim>\<open>out\<close>, \<^verbatim>\<open>out/Q1\<close> and \<^verbatim>\<open>out/Q1/Q1\<close> are directories.
\<close>

definition ex_env_slash :: env where
  "ex_env_slash =
     ex_env\<lparr>metadata := (\<lambda>i. if i = ''doc2'' then Inr (Some ''application/vnd.google-apps.document'')
                             else Inl (HttpError ''404'')),
            exported := (\<lambda>i m. if i = ''doc2'' then Last_chunk ''DOCX''
                               else Chunk_error (HttpError ''403''))\<rparr>"

definition ex_fs_slash :: fs where
  "ex_fs_slash = [''out'' \<mapsto> Dir, ''out/Q1'' \<mapsto> Dir, ''out/Q1/Q1'' \<mapsto> Dir]"

text \<open>The same world, where \<^verbatim>\<open>os.makedirs\<close> may not create \<^verbatim>\<open>new\<close>.\<close>

definition ex_env_denied :: env where
  "ex_env_denied =
     ex_env\<lparr>makedirs_error :=
              (\<lambda>p. if p = ''new'' then Some (OSError ''PermissionError'') else None)\<rparr>"

text \<open>A string of the shape of a folder id: 33 characters, all alphanumeric.\<close>

definition ex_id33 :: string where
  "ex_id33 = ''abcdefghijklmnopqrstuvwxyz0123456''"



subsection \<open>Kinds of events\<close>

text \<open>
  The calls made for one file (metadata, content, write), the listing call and the
  lookup of a folder by name.
\<close>

fun is_file_call :: "event \<Rightarrow> bool" where
  "is_file_call (Ev_get_metadata i) = True"
| "is_file_call (Ev_get_media i) = True"
| "is_file_call (Ev_export_media i m) = True"
| "is_file_call (Ev_write p d r) = True"
| "is_file_call ev = False"

fun is_listing_call :: "event \<Rightarrow> bool" where
  "is_listing_call (Ev_list f r) = True"
| "is_listing_call ev = False"

fun is_lookup_call :: "event \<Rightarrow> bool" where
  "is_lookup_call (Ev_lookup n) = True"
| "is_lookup_call ev = False"

text \<open>Events that are neither a request to the remote service nor a change of the filesystem.\<close>

definition is_quiet :: "event \<Rightarrow> bool" where
  "is_quiet ev \<longleftrightarrow> (case ev of Print m \<Rightarrow> True | Ev_exists p b \<Rightarrow> True | Ev_input \<Rightarrow> True | _ \<Rightarrow> False)"

definition is_sync_call :: "event \<Rightarrow> bool" where
  "is_sync_call ev \<longleftrightarrow> is_lookup_call ev \<or> is_listing_call ev \<or> is_file_call ev"

text \<open>
  What a run shows of its accounting: the files it attempted are the metadata
  requests, in order (the first action of every call of \<open>download_file\<close>); its
  successes are the prints of line 270, each of which goes with one increment of
  \<^verbatim>\<open>success_count\<close>.
\<close>

fun attempted :: "event list \<Rightarrow> string list" where
  "attempted [] = []"
| "attempted (Ev_get_metadata i # evs) = i # attempted evs"
| "attempted (ev # evs) = attempted evs"

fun is_success_report :: "event \<Rightarrow> bool" where
  "is_success_report (Print (Msg_downloaded n)) = True"
| "is_success_report ev = False"

definition succeeded :: "event list \<Rightarrow> nat" where
  "succeeded evs = length (filter is_success_report evs)"

subsection \<open>Writes of a run\<close>






section \<open>Properties\<close>

subsection \<open>Shared facts\<close>

lemma preceded_by_simp [simp]: "preceded_by pre (x, fs, evs) = (x, fs, pre @ evs)"
  by (simp add: preceded_by_def)

lemma preceded_by_eq:
  "preceded_by pre r = (x, fs, evs) \<longleftrightarrow> (\<exists>evs'. r = (x, fs, evs') \<and> evs = pre @ evs')"
  by (cases r) auto

lemma export_formats_nonempty: "map_of export_formats m = Some t \<Longrightarrow> t \<noteq> []"
  by (auto simp: export_formats_def split: if_splits)

text \<open>
  What \<open>transfer_and_save\<close> emits: the request first, then only a write to the given
  path of the transferred content, the check of that path, and prints.
\<close>

lemma transfer_and_save_events:
  assumes "transfer_and_save e req stream n p fs = (ok, fs', evs)"
  shows "\<exists>post. evs = req # post \<and>
           (\<forall>ev \<in> set post. (\<exists>d r. ev = Ev_write p d r \<and> next_chunks [] stream = Inr d)
               \<or> (\<exists>b. ev = Ev_exists p b) \<or> (\<exists>m. ev = Print m))"
  using assms
  by (auto simp: transfer_and_save_def Let_def split: sum.splits if_splits)

text \<open>The native document of the example, downloaded into \<^verbatim>\<open>out\<close>.\<close>

lemma ex_doc1_run:
  "download_file ex_env ''doc1'' ''Plan'' ''out/Plan'' ex_fs =
     (True, ex_fs(''out/Plan.docx'' \<mapsto> File ''DOCX''),
      [Ev_get_metadata ''doc1'',
       Ev_export_media ''doc1''
         ''application/vnd.openxmlformats-officedocument.wordprocessingml.document'',
       Ev_write ''out/Plan.docx'' ''DOCX'' None, Ev_exists ''out/Plan.docx'' True,
       Print (Msg_saved_to ''out/Plan.docx'')])"
  by (simp add: download_file_def ex_env_def ex_fs_def startswith_def endswith_def
      export_formats_def extensions_def transfer_and_save_def os_write_def os_path_exists_def
      os_path_join_def os_path_dirname_def rstrip_sep_def sep_def Let_def)

subsection \<open>C1: a native document is never fetched raw\<close>

text \<open>
  C1. When the metadata request of \<open>download_file\<close> answers a mimeType with the prefix
  \<^verbatim>\<open>application/vnd.google-apps.\<close>, the run issues no \<^verbatim>\<open>get_media\<close> request at
  all. Either the type has no entry in \<open>export_formats\<close>: then the file is skipped
  (the result is \<^verbatim>\<open>False\<close>, the filesystem is unchanged, and the only events are
  the metadata request and the message of line 174). Or it has the entry \<open>t\<close>: then
  the run requests the export in format \<open>t\<close>, and whatever it writes is the content
  of that export.
\<close>

theorem native_never_raw:
  assumes "metadata e file_id = Inr (Some m)"
    and "startswith m ''application/vnd.google-apps.''"
    and "download_file e file_id file_name download_path fs = (ok, fs', evs)"
  shows "(\<forall>fid. Ev_get_media fid \<notin> set evs) \<and>
     (case map_of export_formats m of
        None \<Rightarrow> \<not> ok \<and> fs' = fs \<and> evs = [Ev_get_metadata file_id, Print (Msg_skipping file_name)]
      | Some t \<Rightarrow> Ev_export_media file_id t \<in> set evs \<and>
          (\<forall>p d r. Ev_write p d r \<in> set evs \<longrightarrow> next_chunks [] (exported e file_id t) = Inr d))"
proof (cases "map_of export_formats m")
  case None
  with assms show ?thesis by (auto simp: download_file_def)
next
  case (Some t)
  then have t: "t \<noteq> []" by (rule export_formats_nonempty)
  obtain n p evs' where
    run: "transfer_and_save e (Ev_export_media file_id t) (exported e file_id t) n p fs
            = (ok, fs', evs')"
    and evs: "evs = [Ev_get_metadata file_id] @ evs'"
    using assms Some t by (auto simp: download_file_def Let_def preceded_by_eq split: if_splits)
  from transfer_and_save_events [OF run] obtain post where
    evs': "evs' = Ev_export_media file_id t # post"
    and post: "\<forall>ev \<in> set post.
        (\<exists>d r. ev = Ev_write p d r \<and> next_chunks [] (exported e file_id t) = Inr d)
        \<or> (\<exists>b. ev = Ev_exists p b) \<or> (\<exists>m. ev = Print m)"
    by blast
  show ?thesis using Some evs evs' post by auto
qed

theorem native_never_raw_witness:
  "metadata ex_env ''doc1'' = Inr (Some ''application/vnd.google-apps.document'') \<and>
   startswith ''application/vnd.google-apps.document'' ''application/vnd.google-apps.'' \<and>
   (\<forall>fid. Ev_get_media fid
      \<notin> set (snd (snd (download_file ex_env ''doc1'' ''Plan'' ''out/Plan'' ex_fs)))) \<and>
   Ev_export_media ''doc1''
     ''application/vnd.openxmlformats-officedocument.wordprocessingml.document''
     \<in> set (snd (snd (download_file ex_env ''doc1'' ''Plan'' ''out/Plan'' ex_fs)))"
proof -
  have h1: "metadata ex_env ''doc1'' = Inr (Some ''application/vnd.google-apps.document'')"
    by (simp add: ex_env_def)
  have h2: "startswith ''application/vnd.google-apps.document'' ''application/vnd.google-apps.''"
    by (simp add: startswith_def)
  have m: "map_of export_formats ''application/vnd.google-apps.document'' =
    Some ''application/vnd.openxmlformats-officedocument.wordprocessingml.document''"
    by (simp add: export_formats_def)
  show ?thesis
    using native_never_raw [OF h1 h2 ex_doc1_run] h1 h2 m by (simp add: ex_doc1_run)
qed

subsection \<open>C3: an unmapped native type is skipped, with the result of a failure\<close>

lemma ex_form1_run:
  "download_file ex_env ''form1'' ''Survey'' ''out/Survey'' ex_fs =
     (False, ex_fs, [Ev_get_metadata ''form1'', Print (Msg_skipping ''Survey'')])"
  by (simp add: download_file_def ex_env_def startswith_def export_formats_def)

lemma ex_gone_run:
  "download_file ex_env ''gone'' ''old.bin'' ''out/old.bin'' ex_fs =
     (False, ex_fs,
      [Ev_get_metadata ''gone'', Print (Msg_error_downloading ''old.bin'' (HttpError ''404''))])"
  by (simp add: download_file_def ex_env_def)

text \<open>A run that reached the handler of line 200 returns \<^verbatim>\<open>False\<close>.\<close>

lemma error_message_False:
  assumes "download_file e file_id file_name download_path fs = (ok, fs', evs)"
    and "Print (Msg_error_downloading n x) \<in> set evs"
  shows "\<not> ok"
  using assms
  by (auto simp: download_file_def transfer_and_save_def Let_def
      split: sum.splits option.splits if_splits)

text \<open>
  C3, as the claim states it, asks for a result of the skipped file that differs from the
  result of a failed one. \<open>download_file\<close> returns a truth value, and both results are
  \<^verbatim>\<open>False\<close>: in the example, the form (a native type with no export format) and the
  file whose metadata request fails give the same value.
\<close>

theorem skipped_not_distinguished_counterexample:
  "metadata ex_env ''form1'' = Inr (Some ''application/vnd.google-apps.form'') \<and>
   map_of export_formats ''application/vnd.google-apps.form'' = None \<and>
   metadata ex_env ''gone'' = Inl (HttpError ''404'') \<and>
   fst (download_file ex_env ''form1'' ''Survey'' ''out/Survey'' ex_fs) =
   fst (download_file ex_env ''gone'' ''old.bin'' ''out/old.bin'' ex_fs)"
  by (simp add: ex_form1_run ex_gone_run) (simp add: ex_env_def export_formats_def)

text \<open>
  C3, amended. For a file whose fetched mimeType is native and has no entry in
  \<open>export_formats\<close>, \<open>download_file\<close> returns \<^verbatim>\<open>False\<close>, leaves the filesystem as
  it was, and its only events are the metadata request and the message of line 174; it
  requests no content and writes nothing. A failed download (a run that printed the
  message of line 201) returns \<^verbatim>\<open>False\<close> as well: the two differ in the message
  printed, not in the value.
\<close>

theorem skipped_is_False_like_failed:
  assumes "metadata e file_id = Inr (Some m)"
    and "startswith m ''application/vnd.google-apps.''"
    and "map_of export_formats m = None"
    and "download_file e2 file_id2 file_name2 download_path2 fs2 = (ok2, fs2', evs2)"
    and "Print (Msg_error_downloading n x) \<in> set evs2"
  shows "download_file e file_id file_name download_path fs =
           (False, fs, [Ev_get_metadata file_id, Print (Msg_skipping file_name)]) \<and>
         ok2 = False"
  using assms(1-3) error_message_False [OF assms(4,5)] by (simp add: download_file_def)

theorem skipped_is_False_like_failed_witness:
  "metadata ex_env ''form1'' = Inr (Some ''application/vnd.google-apps.form'') \<and>
   startswith ''application/vnd.google-apps.form'' ''application/vnd.google-apps.'' \<and>
   map_of export_formats ''application/vnd.google-apps.form'' = None \<and>
   Print (Msg_error_downloading ''old.bin'' (HttpError ''404''))
     \<in> set (snd (snd (download_file ex_env ''gone'' ''old.bin'' ''out/old.bin'' ex_fs))) \<and>
   download_file ex_env ''form1'' ''Survey'' ''out/Survey'' ex_fs =
     (False, ex_fs, [Ev_get_metadata ''form1'', Print (Msg_skipping ''Survey'')]) \<and>
   fst (download_file ex_env ''gone'' ''old.bin'' ''out/old.bin'' ex_fs) = False"
proof -
  have h1: "metadata ex_env ''form1'' = Inr (Some ''application/vnd.google-apps.form'')"
    by (simp add: ex_env_def)
  have h2: "startswith ''application/vnd.google-apps.form'' ''application/vnd.google-apps.''"
    by (simp add: startswith_def)
  have h3: "map_of export_formats ''application/vnd.google-apps.form'' = None"
    by (simp add: export_formats_def)
  have h5: "Print (Msg_error_downloading ''old.bin'' (HttpError ''404''))
     \<in> set [Ev_get_metadata ''gone'', Print (Msg_error_downloading ''old.bin'' (HttpError ''404''))]"
    by simp
  show ?thesis
    using skipped_is_False_like_failed [OF h1 h2 h3 ex_gone_run h5, of "''Survey''" "''out/Survey''" ex_fs]
      h1 h2 h3
    by (simp add: ex_gone_run)
qed

subsection \<open>C9: a write that cannot be seen afterwards still counts\<close>

text \<open>
  C9. In a run of \<open>download_file\<close> where the write to \<open>p\<close> raised nothing and the
  check of line 193 did not find \<open>p\<close>, the result is \<^verbatim>\<open>True\<close>, the filesystem holds
  the content at \<open>p\<close>, the message of line 196 is printed, and the handler of line 200
  is not reached.
\<close>

theorem write_anomaly_still_True:
  assumes "download_file e file_id file_name download_path fs = (ok, fs', evs)"
    and "Ev_write p d None \<in> set evs"
    and "Ev_exists p False \<in> set evs"
  shows "ok \<and> fs' p = Some (File d) \<and> Print (Msg_not_at_expected_location p) \<in> set evs \<and>
         (\<forall>n x. Print (Msg_error_downloading n x) \<notin> set evs)"
proof -
  obtain req stream n q evs' where
    run: "transfer_and_save e req stream n q fs = (ok, fs', evs')"
    and evs: "evs = [Ev_get_metadata file_id] @ evs'"
    and req: "req = Ev_get_media file_id \<or> (\<exists>t. req = Ev_export_media file_id t)"
    using assms
    by (auto simp: download_file_def Let_def preceded_by_eq split: sum.splits option.splits if_splits)
  from run assms(2,3) evs req show ?thesis
    by (auto simp: transfer_and_save_def Let_def os_write_def split: sum.splits option.splits if_splits)
qed

lemma ex_hidden_run:
  "download_file ex_env_hidden ''txt1'' ''notes.txt'' ''out/notes.txt'' ex_fs =
     (True, ex_fs(''out/notes.txt'' \<mapsto> File ''hello''),
      [Ev_get_metadata ''txt1'', Ev_get_media ''txt1'',
       Ev_write ''out/notes.txt'' ''hello'' None, Ev_exists ''out/notes.txt'' False,
       Print (Msg_not_at_expected_location ''out/notes.txt'')])"
  by (simp add: download_file_def ex_env_hidden_def ex_env_def ex_fs_def startswith_def
      endswith_def transfer_and_save_def os_write_def os_path_exists_def
      os_path_dirname_def rstrip_sep_def sep_def Let_def)

theorem write_anomaly_still_True_witness:
  "Ev_write ''out/notes.txt'' ''hello'' None
     \<in> set (snd (snd (download_file ex_env_hidden ''txt1'' ''notes.txt'' ''out/notes.txt'' ex_fs))) \<and>
   Ev_exists ''out/notes.txt'' False
     \<in> set (snd (snd (download_file ex_env_hidden ''txt1'' ''notes.txt'' ''out/notes.txt'' ex_fs))) \<and>
   fst (download_file ex_env_hidden ''txt1'' ''notes.txt'' ''out/notes.txt'' ex_fs) \<and>
   Print (Msg_not_at_expected_location ''out/notes.txt'')
     \<in> set (snd (snd (download_file ex_env_hidden ''txt1'' ''notes.txt'' ''out/notes.txt'' ex_fs)))"
proof -
  have h2: "Ev_write ''out/notes.txt'' ''hello'' None
     \<in> set [Ev_get_metadata ''txt1'', Ev_get_media ''txt1'',
       Ev_write ''out/notes.txt'' ''hello'' None, Ev_exists ''out/notes.txt'' False,
       Print (Msg_not_at_expected_location ''out/notes.txt'')]"
    by simp
  have h3: "Ev_exists ''out/notes.txt'' False
     \<in> set [Ev_get_metadata ''txt1'', Ev_get_media ''txt1'',
       Ev_write ''out/notes.txt'' ''hello'' None, Ev_exists ''out/notes.txt'' False,
       Print (Msg_not_at_expected_location ''out/notes.txt'')]"
    by simp
  show ?thesis
    using write_anomaly_still_True [OF ex_hidden_run h2 h3] by (simp add: ex_hidden_run)
qed

subsection \<open>C4: the extension of an exported document\<close>

text \<open>
  The part of a path up to its last separator, when the path is \<open>a @ b\<close>, \<open>b\<close> holds
  no separator and \<open>a\<close> is empty or ends with one.
\<close>

lemma head_of_append:
  assumes "sep \<notin> set b" and "a = [] \<or> last a = sep"
  shows "rev (dropWhile (\<lambda>c. c \<noteq> sep) (rev (a @ b))) = a"
proof -
  have "dropWhile (\<lambda>c. c \<noteq> sep) (rev b @ rev a) = dropWhile (\<lambda>c. c \<noteq> sep) (rev a)"
    using assms(1) by (intro dropWhile_append2) auto
  moreover have "dropWhile (\<lambda>c. c \<noteq> sep) (rev a) = rev a"
    using assms(2) by (cases a rule: rev_cases) auto
  ultimately show ?thesis by simp
qed

lemma all_sep_iff: "s = replicate (length s) sep \<longleftrightarrow> (\<forall>c \<in> set s. c = sep)"
  by (metis in_set_replicate replicate_eqI)

lemma rstrip_sep_shape:
  assumes "s \<noteq> replicate (length s) sep"
  shows "rstrip_sep s \<noteq> [] \<and> last (rstrip_sep s) \<noteq> sep"
proof -
  let ?r = "dropWhile (\<lambda>c. c = sep) (rev s)"
  have ne: "?r \<noteq> []"
  proof
    assume "?r = []"
    then have "\<forall>c \<in> set (rev s). c = sep" by simp
    then show False using assms by (simp add: all_sep_iff)
  qed
  then have "hd ?r \<noteq> sep" using hd_dropWhile [of "\<lambda>c. c = sep" "rev s"] by simp
  with ne show ?thesis by (simp add: rstrip_sep_def last_rev)
qed

lemma os_path_dirname_shape:
  "os_path_dirname p = [] \<or>
   (os_path_dirname p \<noteq> [] \<and> os_path_dirname p = replicate (length (os_path_dirname p)) sep) \<or>
   (os_path_dirname p \<noteq> [] \<and> last (os_path_dirname p) \<noteq> sep)"
  using rstrip_sep_shape [of "rev (dropWhile (\<lambda>c. c \<noteq> sep) (rev p))"]
  by (auto simp: os_path_dirname_def Let_def)

lemma rstrip_sep_snoc: "d \<noteq> [] \<Longrightarrow> last d \<noteq> sep \<Longrightarrow> rstrip_sep (d @ [sep]) = d"
  by (cases d rule: rev_cases) (auto simp: rstrip_sep_def)

lemma os_path_dirname_head:
  "rev (dropWhile (\<lambda>c. c \<noteq> sep) (rev q)) = h \<Longrightarrow>
   os_path_dirname q = (if h \<noteq> [] \<and> h \<noteq> replicate (length h) sep then rstrip_sep h else h)"
  by (auto simp: os_path_dirname_def Let_def)

lemma join_dirname_of_leaf:
  assumes b: "sep \<notin> set b"
    and d: "d = [] \<or> (d \<noteq> [] \<and> d = replicate (length d) sep) \<or> (d \<noteq> [] \<and> last d \<noteq> sep)"
  shows "os_path_dirname (os_path_join d b) = d"
proof -
  have nb: "\<not> startswith b [sep]"
    using b by (cases b) (auto simp: startswith_def)
  consider (empty) "d = []"
    | (seps) "d \<noteq> []" "d = replicate (length d) sep"
    | (name) "d \<noteq> []" "last d \<noteq> sep"
    using d by blast
  then show ?thesis
  proof cases
    case empty
    then have "os_path_join d b = b" using nb by (simp add: os_path_join_def)
    moreover have "os_path_dirname b = []"
      using os_path_dirname_head [OF head_of_append [OF b, of "[]"]] by simp
    ultimately show ?thesis using empty by simp
  next
    case seps
    then have l: "last d = sep" by (metis last_replicate length_0_conv)
    then have "endswith d [sep]" using seps(1)
      by (cases d rule: rev_cases) (auto simp: endswith_def)
    then have "os_path_join d b = d @ b" using nb by (simp add: os_path_join_def)
    moreover have "os_path_dirname (d @ b) = d"
      using os_path_dirname_head [OF head_of_append [OF b, of d]] l seps(2) by simp
    ultimately show ?thesis by simp
  next
    case name
    then have "\<not> endswith d [sep]"
      by (cases d rule: rev_cases) (auto simp: endswith_def)
    then have j: "os_path_join d b = (d @ [sep]) @ b"
      using nb name by (simp add: os_path_join_def)
    have ns: "d @ [sep] \<noteq> replicate (length (d @ [sep])) sep"
      using name by (metis all_sep_iff last_in_set Un_iff set_append)
    have "os_path_dirname ((d @ [sep]) @ b) = rstrip_sep (d @ [sep])"
      using os_path_dirname_head [OF head_of_append [OF b, of "d @ [sep]"]] ns by simp
    then show ?thesis using j rstrip_sep_snoc [OF name] by simp
  qed
qed

lemma extension_rewrite_keeps_directory:
  assumes "sep \<notin> set file_name" and "sep \<notin> set ext"
  shows "os_path_dirname (os_path_join (os_path_dirname p) (file_name @ ext)) = os_path_dirname p"
  using assms by (intro join_dirname_of_leaf os_path_dirname_shape) simp

text \<open>
  The destination of an exported document ends with the name and the extension.
\<close>

lemma os_path_join_endswith: "endswith (os_path_join a b) b"
  by (auto simp: os_path_join_def endswith_def startswith_def)

text \<open>
  C4 holds on \<open>download_file\<close> for every name without a separator
  (\<open>extension_rewrite_keeps_directory\<close>, with \<open>os_path_join_endswith\<close>), and fails
  for a name with one. The file \<^verbatim>\<open>Q1/plan\<close> of a folder synchronised into
  \<^verbatim>\<open>out\<close> gets the destination \<^verbatim>\<open>out/Q1/plan\<close> in line 265, whose directory is
  \<^verbatim>\<open>out/Q1\<close>. Lines 171 and 172 append \<^verbatim>\<open>.docx\<close> to the name and join the
  whole name, \<^verbatim>\<open>Q1/plan.docx\<close>, to that directory: the document is written to
  \<^verbatim>\<open>out/Q1/Q1/plan.docx\<close>, in another directory, and nothing is written in
  \<^verbatim>\<open>out/Q1\<close>.
\<close>

theorem slash_name_moves_directory:
  "os_path_join ''out'' ''Q1/plan'' = ''out/Q1/plan'' \<and>
   os_path_dirname ''out/Q1/plan'' = ''out/Q1'' \<and>
   download_file ex_env_slash ''doc2'' ''Q1/plan'' ''out/Q1/plan'' ex_fs_slash =
     (True, ex_fs_slash(''out/Q1/Q1/plan.docx'' \<mapsto> File ''DOCX''),
      [Ev_get_metadata ''doc2'',
       Ev_export_media ''doc2''
         ''application/vnd.openxmlformats-officedocument.wordprocessingml.document'',
       Ev_write ''out/Q1/Q1/plan.docx'' ''DOCX'' None, Ev_exists ''out/Q1/Q1/plan.docx'' True,
       Print (Msg_saved_to ''out/Q1/Q1/plan.docx'')]) \<and>
   os_path_dirname ''out/Q1/Q1/plan.docx'' = ''out/Q1/Q1'' \<and>
   os_path_dirname ''out/Q1/Q1/plan.docx'' \<noteq> os_path_dirname ''out/Q1/plan''"
  by (simp add: download_file_def ex_env_slash_def ex_env_def ex_fs_slash_def startswith_def
      endswith_def export_formats_def extensions_def transfer_and_save_def os_write_def
      os_path_exists_def os_path_join_def os_path_dirname_def rstrip_sep_def sep_def Let_def)

subsection \<open>What each part of a run emits\<close>

lemma is_quiet_simps [simp]:
  "is_quiet (Print m)" "is_quiet (Ev_exists p b)" "is_quiet Ev_input"
  "\<not> is_quiet (Ev_makedirs p r)" "\<not> is_quiet (Ev_lookup n)" "\<not> is_quiet (Ev_list f l)"
  "\<not> is_quiet (Ev_get_metadata i)" "\<not> is_quiet (Ev_get_media i)"
  "\<not> is_quiet (Ev_export_media i t)" "\<not> is_quiet (Ev_write p d r)"
  by (simp_all add: is_quiet_def)

lemma transfer_and_save_kinds:
  assumes "transfer_and_save e req stream n p fs = (ok, fs', evs)"
  shows "\<forall>ev \<in> set evs. ev = req \<or> is_file_call ev \<or> is_quiet ev"
  using assms by (auto simp: transfer_and_save_def Let_def split: sum.splits if_splits)

lemma download_file_kinds:
  assumes "download_file e i n p fs = (ok, fs', evs)"
  shows "\<forall>ev \<in> set evs. is_file_call ev \<or> is_quiet ev"
proof -
  have "evs = [Ev_get_metadata i, Print (Msg_error_downloading n (case metadata e i of Inl x \<Rightarrow> x))]
      \<or> evs = [Ev_get_metadata i, Print (Msg_skipping n)]
      \<or> (\<exists>req stream n' p' evs'. is_file_call req \<and> evs = Ev_get_metadata i # evs' \<and>
            transfer_and_save e req stream n' p' fs = (ok, fs', evs'))"
    using assms
    by (auto simp: download_file_def Let_def preceded_by_eq split: sum.splits option.splits if_splits)
  then show ?thesis
    using transfer_and_save_kinds by fastforce
qed

lemma download_each_kinds:
  "download_each e lp n i s files fs = (k, fs', evs) \<Longrightarrow>
   \<forall>ev \<in> set evs. is_file_call ev \<or> is_quiet ev"
proof (induction files arbitrary: i s fs k fs' evs)
  case Nil
  then show ?case by simp
next
  case (Cons f files)
  obtain ok fs1 evs1 where df: "download_file e (rf_id f) (rf_name f) (os_path_join lp (rf_name f)) fs = (ok, fs1, evs1)"
    by (metis prod_cases3)
  with Cons.prems obtain evs2 where
    rest: "download_each e lp n (i + 1) (if ok then s + 1 else s) files fs1 = (k, fs', evs2)"
    and evs: "evs = (Print (Msg_downloading i n (rf_name f)) # evs1
                @ (if ok then [Print (Msg_downloaded (rf_name f))] else [])) @ evs2"
    by (auto simp: Let_def preceded_by_eq)
  from Cons.IH [OF rest] download_file_kinds [OF df] evs show ?case by auto
qed

lemma choose_folder_kinds:
  "choose_folder folders as = (r, evs) \<Longrightarrow> \<forall>ev \<in> set evs. is_quiet ev"
  by (induction folders as arbitrary: r evs rule: choose_folder.induct)
     (auto simp: Let_def split: prod.splits if_splits)

lemma get_folder_id_kinds:
  assumes "get_folder_id e name = (r, evs)"
  shows "\<exists>rest. evs = Ev_lookup name # rest \<and> (\<forall>ev \<in> set rest. is_quiet ev)"
  using assms choose_folder_kinds
  by (fastforce simp: get_folder_id_def split: sum.splits if_splits prod.splits)

lemma sync_files_kinds:
  assumes "sync_files e fid lp fs = (r, fs', evs)"
  shows "\<exists>rest. evs = [Print (Msg_downloading_from fid), Ev_list fid (children e fid)] @ rest \<and>
           (\<forall>ev \<in> set rest. is_file_call ev \<or> is_quiet ev)"
  using assms download_each_kinds
  by (fastforce simp: sync_files_def list_files_in_folder_def split: sum.splits if_splits prod.splits)

lemma is_sync_call_simps [simp]:
  "\<not> is_sync_call (Print m)" "\<not> is_sync_call (Ev_exists p b)" "\<not> is_sync_call Ev_input"
  "\<not> is_sync_call (Ev_makedirs p r)" "is_sync_call (Ev_lookup n)" "is_sync_call (Ev_list f l)"
  "is_sync_call (Ev_get_metadata i)" "is_sync_call (Ev_get_media i)"
  "is_sync_call (Ev_export_media i t)" "is_sync_call (Ev_write p d r)"
  by (simp_all add: is_sync_call_def)

lemma is_quiet_not_sync: "is_quiet ev \<Longrightarrow> \<not> is_sync_call ev"
  by (cases ev) simp_all

lemma resolve_and_sync_kinds:
  assumes "resolve_and_sync e ident lp fs = (r, fs', evs)"
  shows "\<forall>ev \<in> set evs. is_sync_call ev \<or> is_quiet ev"
proof (cases "length ident = 33 \<and> isalnum ident")
  case True
  with assms have "sync_files e ident lp fs = (r, fs', evs)" by (simp add: resolve_and_sync_def)
  from sync_files_kinds [OF this] show ?thesis by (auto simp: is_sync_call_def)
next
  case False
  obtain g gevs where g: "get_folder_id e ident = (g, gevs)" by (cases "get_folder_id e ident")
  from get_folder_id_kinds [OF g] have gk: "\<forall>ev \<in> set gevs. is_sync_call ev \<or> is_quiet ev"
    by auto
  show ?thesis
  proof (cases "\<exists>fid. g = Inr (Some fid) \<and> fid \<noteq> []")
    case True
    then obtain fid where fid: "g = Inr (Some fid)" "fid \<noteq> []" by blast
    with assms False g obtain sevs where s: "sync_files e fid lp fs = (r, fs', sevs)" and
      evs: "evs = gevs @ sevs"
      by (auto simp: resolve_and_sync_def preceded_by_eq)
    from sync_files_kinds [OF s] gk evs show ?thesis by (auto simp: is_sync_call_def)
  next
    case F2: False
    with assms False g have "evs = gevs \<or> evs = gevs @ [Print (Msg_folder_not_found ident)]"
      by (auto simp: resolve_and_sync_def split: sum.splits option.splits if_splits)
    with gk show ?thesis by auto
  qed
qed

text \<open>
  A run of \<open>download_folder\<close> with the service ready either stops at a failed
  \<^verbatim>\<open>os.makedirs\<close>, or is a prelude (prints, the check of the parent, the
  \<^verbatim>\<open>os.makedirs\<close> calls, none of which failed) followed by \<open>resolve_and_sync\<close>.
\<close>

lemma download_folder_phases:
  assumes run: "download_folder e ident lp fs = (r, fs', evs)" and ready: "service_ready e"
  shows "(r = None \<and> (\<forall>ev \<in> set evs. \<not> is_sync_call ev) \<and> (\<exists>p x. Ev_makedirs p (Some x) \<in> set evs)) \<or>
    (\<exists>prelude fs0 fs1 rest. evs = prelude @ rest \<and> (\<forall>ev \<in> set prelude. \<not> is_sync_call ev) \<and>
        (\<forall>ev \<in> set prelude. \<not> is_success_report ev) \<and>
        (\<forall>p x. Ev_makedirs p (Some x) \<notin> set prelude) \<and>
        Ev_makedirs lp None \<in> set prelude \<and>
        (os_path_dirname lp \<noteq> [] \<and> \<not> os_path_exists e fs (os_path_dirname lp)
           \<longrightarrow> Ev_makedirs (os_path_dirname lp) None \<in> set prelude) \<and>
        os_makedirs e lp fs0 = Inr fs1 \<and>
        resolve_and_sync e ident lp fs1 = (r, fs', rest))"
proof -
  let ?parent = "os_path_dirname lp"
  let ?pre = "[Print (Msg_attempting lp), Print (Msg_absolute_path lp)]"
  have target: "(r = None \<and> (\<forall>ev \<in> set evs. \<not> is_sync_call ev) \<and> (\<exists>p x. Ev_makedirs p (Some x) \<in> set evs)) \<or>
    (\<exists>fs1 rest. evs = (pre @ [Ev_makedirs lp None, Print (Msg_target_ready lp)]) @ rest \<and>
        os_makedirs e lp fs0 = Inr fs1 \<and>
        resolve_and_sync e ident lp fs1 = (r, fs', rest))"
    if "create_target e ident lp fs0 = (r, fs', tevs)" "evs = pre @ tevs" "\<forall>ev \<in> set pre. \<not> is_sync_call ev"
    for fs0 tevs pre
    using that by (fastforce simp: create_target_def preceded_by_eq split: sum.splits)
  have finish: ?thesis
    if t: "create_target e ident lp fs0 = (r, fs', tevs)" and evs: "evs = pre @ tevs"
      and q: "\<forall>ev \<in> set pre. \<not> is_sync_call ev"
      and q2: "\<forall>ev \<in> set pre. \<not> is_success_report ev"
      and nf: "\<forall>p x. Ev_makedirs p (Some x) \<notin> set pre"
      and par: "?parent \<noteq> [] \<and> \<not> os_path_exists e fs ?parent
                  \<longrightarrow> Ev_makedirs ?parent None \<in> set pre"
    for fs0 tevs pre
    using target [OF t evs q]
  proof
    assume "r = None \<and> (\<forall>ev \<in> set evs. \<not> is_sync_call ev) \<and> (\<exists>p x. Ev_makedirs p (Some x) \<in> set evs)"
    then show ?thesis by blast
  next
    assume "\<exists>fs1 rest. evs = (pre @ [Ev_makedirs lp None, Print (Msg_target_ready lp)]) @ rest \<and>
        os_makedirs e lp fs0 = Inr fs1 \<and> resolve_and_sync e ident lp fs1 = (r, fs', rest)"
    then obtain fs1 rest where
      1: "evs = (pre @ [Ev_makedirs lp None, Print (Msg_target_ready lp)]) @ rest"
      and 2: "os_makedirs e lp fs0 = Inr fs1"
      and 3: "resolve_and_sync e ident lp fs1 = (r, fs', rest)"
      by blast
    let ?prelude = "pre @ [Ev_makedirs lp None, Print (Msg_target_ready lp)]"
    have "(\<forall>ev \<in> set ?prelude. \<not> is_sync_call ev) \<and>
        (\<forall>ev \<in> set ?prelude. \<not> is_success_report ev) \<and>
        (\<forall>p x. Ev_makedirs p (Some x) \<notin> set ?prelude) \<and>
        Ev_makedirs lp None \<in> set ?prelude \<and>
        (?parent \<noteq> [] \<and> \<not> os_path_exists e fs ?parent
           \<longrightarrow> Ev_makedirs ?parent None \<in> set ?prelude)"
      using q q2 nf par by auto
    with 1 2 3 show ?thesis by blast
  qed
  show ?thesis
  proof (cases "?parent \<noteq> [] \<and> \<not> os_path_exists e fs ?parent")
    case True
    show ?thesis
    proof (cases "os_makedirs e ?parent fs")
      case (Inl x)
      with run ready True have "r = None" and
        "evs = ?pre @ [Ev_exists ?parent False, Print (Msg_parent_missing ?parent),
                     Ev_makedirs ?parent (Some x), Print (Msg_parent_failed x)]"
        by (auto simp: download_folder_def Let_def)
      then show ?thesis by auto
    next
      case (Inr fs0)
      let ?pre2 = "?pre @ [Ev_exists ?parent False, Print (Msg_parent_missing ?parent),
                        Ev_makedirs ?parent None, Print Msg_parent_created]"
      obtain tevs where t: "create_target e ident lp fs0 = (r, fs', tevs)" and evs: "evs = ?pre2 @ tevs"
        using run ready True Inr by (auto simp: download_folder_def Let_def preceded_by_eq)
      show ?thesis by (rule finish [OF t evs]) auto
    qed
  next
    case False
    let ?pre2 = "?pre @ (if ?parent \<noteq> [] then [Ev_exists ?parent True] else [])"
    obtain tevs where t: "create_target e ident lp fs = (r, fs', tevs)" and evs: "evs = ?pre2 @ tevs"
      using run ready False by (auto simp: download_folder_def Let_def preceded_by_eq split: if_splits)
    show ?thesis by (rule finish [OF t evs]) (use False in auto)
  qed
qed

text \<open>How the events of \<open>resolve_and_sync\<close> start, for the two shapes of the identifier.\<close>

lemma resolve_direct_events:
  assumes "length ident = 33 \<and> isalnum ident" and "resolve_and_sync e ident lp fs = (r, fs', rest)"
  shows "\<exists>post. rest = [Print (Msg_downloading_from ident), Ev_list ident (children e ident)] @ post \<and>
           (\<forall>ev \<in> set post. is_file_call ev \<or> is_quiet ev)"
  using assms sync_files_kinds [of e ident lp fs r fs' rest] by (simp add: resolve_and_sync_def)

lemma resolve_by_name_events:
  assumes "\<not> (length ident = 33 \<and> isalnum ident)" and "resolve_and_sync e ident lp fs = (r, fs', rest)"
  shows "\<exists>post. rest = Ev_lookup ident # post"
proof -
  obtain g gevs where g: "get_folder_id e ident = (g, gevs)" by (cases "get_folder_id e ident")
  from get_folder_id_kinds [OF g] obtain grest where gevs: "gevs = Ev_lookup ident # grest" by blast
  from assms g have "\<exists>post. rest = gevs @ post"
    by (auto simp: resolve_and_sync_def preceded_by_eq split: sum.splits option.splits if_splits)
  with gevs show ?thesis by auto
qed

lemma is_file_call_not_others:
  "is_file_call ev \<Longrightarrow> \<not> is_lookup_call ev \<and> \<not> is_listing_call ev \<and> (\<forall>p x. ev \<noteq> Ev_makedirs p x)"
  by (cases ev) simp_all

lemma is_quiet_not_others:
  "is_quiet ev \<Longrightarrow> \<not> is_lookup_call ev \<and> \<not> is_listing_call ev \<and> \<not> is_file_call ev \<and> (\<forall>p x. ev \<noteq> Ev_makedirs p x)"
  by (cases ev) simp_all

lemma not_sync_call_not_others:
  "\<not> is_sync_call ev \<Longrightarrow> \<not> is_lookup_call ev \<and> \<not> is_listing_call ev \<and> \<not> is_file_call ev"
  by (simp add: is_sync_call_def)

lemma after_setup:
  assumes "evs = prelude @ rest" and "\<forall>ev \<in> set prelude. \<not> P ev" and "i < length evs" and "P (evs ! i)"
  shows "length prelude \<le> i \<and> set prelude \<subseteq> set (take i evs)"
proof -
  have "length prelude \<le> i"
  proof (rule ccontr)
    assume "\<not> length prelude \<le> i"
    then have "evs ! i \<in> set prelude" using assms(1) by (simp add: nth_append)
    with assms(2,4) show False by blast
  qed
  then show ?thesis using assms(1) by auto
qed

text \<open>Two runs of the example: into \<^verbatim>\<open>new/out\<close>, and the same where \<^verbatim>\<open>new\<close> cannot be made.\<close>

lemma ex_new_out_events:
  "snd (snd (download_folder ex_env ''Reports'' ''new/out'' Map.empty)) =
  [Print (Msg_attempting ''new/out''),
   Print (Msg_absolute_path ''new/out''), Ev_exists ''new'' False,
   Print (Msg_parent_missing ''new''), Ev_makedirs ''new'' None,
   Print Msg_parent_created, Ev_makedirs ''new/out'' None,
   Print (Msg_target_ready ''new/out''), Ev_lookup ''Reports'',
   Print (Msg_downloading_from ''F1''),
   Ev_list ''F1'' (Inr ex_files),
   Print (Msg_found 4), Print (Msg_downloading 1 4 ''notes.txt''),
   Ev_get_metadata ''txt1'', Ev_get_media ''txt1'',
   Ev_write ''new/out/notes.txt'' ''hello'' None,
   Ev_exists ''new/out/notes.txt'' True,
   Print (Msg_saved_to ''new/out/notes.txt''),
   Print (Msg_downloaded ''notes.txt''),
   Print (Msg_downloading 2 4 ''Plan''), Ev_get_metadata ''doc1'',
   Ev_export_media ''doc1''
    ''application/vnd.openxmlformats-officedocument.wordprocessingml.document'',
   Ev_write ''new/out/Plan.docx'' ''DOCX'' None,
   Ev_exists ''new/out/Plan.docx'' True,
   Print (Msg_saved_to ''new/out/Plan.docx''),
   Print (Msg_downloaded ''Plan''), Print (Msg_downloading 3 4 ''Survey''),
   Ev_get_metadata ''form1'', Print (Msg_skipping ''Survey''),
   Print (Msg_downloading 4 4 ''old.bin''), Ev_get_metadata ''gone'',
   Print (Msg_error_downloading ''old.bin'' (HttpError ''404'')),
   Print (Msg_complete 2 4)]"
  by (simp add: download_folder_def create_target_def resolve_and_sync_def sync_files_def
      list_files_in_folder_def get_folder_id_def ex_files_def isalnum_def
      download_file_def ex_env_def startswith_def endswith_def
      export_formats_def extensions_def transfer_and_save_def os_write_def os_path_exists_def
      os_makedirs_def mkdir_all_def ancestors_def is_file_def
      os_path_join_def os_path_dirname_def rstrip_sep_def sep_def Let_def)

lemma ex_denied_events:
  "download_folder ex_env_denied ''Reports'' ''new/out'' Map.empty =
  (None, Map.empty, [Print (Msg_attempting ''new/out''),
   Print (Msg_absolute_path ''new/out''), Ev_exists ''new'' False,
   Print (Msg_parent_missing ''new''), Ev_makedirs ''new'' (Some (OSError ''PermissionError'')),
   Print (Msg_parent_failed (OSError ''PermissionError''))])"
  by (simp add: download_folder_def ex_env_denied_def ex_env_def os_path_exists_def
      os_makedirs_def os_path_dirname_def rstrip_sep_def sep_def Let_def)

lemma ex_id33_events:
  "snd (snd (download_folder ex_env ex_id33 ''out'' Map.empty)) =
     [Print (Msg_attempting ''out''), Print (Msg_absolute_path ''out''),
      Ev_makedirs ''out'' None, Print (Msg_target_ready ''out''),
      Print (Msg_downloading_from ex_id33), Ev_list ex_id33 (Inr []), Print Msg_no_files]"
  by (simp add: download_folder_def create_target_def resolve_and_sync_def sync_files_def
      list_files_in_folder_def isalnum_def isalnum_char_def ex_id33_def ex_env_def
      os_path_exists_def os_makedirs_def mkdir_all_def ancestors_def is_file_def
      os_path_dirname_def rstrip_sep_def sep_def Let_def)

lemma run_collapse: "f = (fst f, fst (snd f), snd (snd f))"
  by simp

subsection \<open>C6: the directories come first\<close>

text \<open>
  C6. In every run of \<open>download_folder\<close>, a request to the remote service (lookup,
  listing, metadata, content) or a write, at position \<open>i\<close> of the events, has before
  it the successful \<^verbatim>\<open>os.makedirs\<close> of the target directory and, when the parent
  directory was missing (line 221), the successful \<^verbatim>\<open>os.makedirs\<close> of the parent.
  And a run in which an \<^verbatim>\<open>os.makedirs\<close> raised returns with no such request and
  no write at all.
\<close>

theorem directories_before_any_call:
  assumes run: "download_folder e ident lp fs = (r, fs', evs)"
  shows "(\<forall>i < length evs. is_sync_call (evs ! i) \<longrightarrow>
            Ev_makedirs lp None \<in> set (take i evs) \<and>
            (os_path_dirname lp \<noteq> [] \<and> \<not> os_path_exists e fs (os_path_dirname lp)
               \<longrightarrow> Ev_makedirs (os_path_dirname lp) None \<in> set (take i evs))) \<and>
         ((\<exists>p x. Ev_makedirs p (Some x) \<in> set evs) \<longrightarrow>
            r = None \<and> (\<forall>ev \<in> set evs. \<not> is_sync_call ev))"
proof (cases "service_ready e")
  case False
  with run show ?thesis by (simp add: download_folder_def)
next
  case True
  from download_folder_phases [OF run True] show ?thesis
  proof
    assume "r = None \<and> (\<forall>ev \<in> set evs. \<not> is_sync_call ev) \<and> (\<exists>p x. Ev_makedirs p (Some x) \<in> set evs)"
    then show ?thesis by simp
  next
    assume "\<exists>prelude fs0 fs1 rest. evs = prelude @ rest \<and> (\<forall>ev \<in> set prelude. \<not> is_sync_call ev) \<and>
        (\<forall>ev \<in> set prelude. \<not> is_success_report ev) \<and>
        (\<forall>p x. Ev_makedirs p (Some x) \<notin> set prelude) \<and>
        Ev_makedirs lp None \<in> set prelude \<and>
        (os_path_dirname lp \<noteq> [] \<and> \<not> os_path_exists e fs (os_path_dirname lp)
           \<longrightarrow> Ev_makedirs (os_path_dirname lp) None \<in> set prelude) \<and>
        os_makedirs e lp fs0 = Inr fs1 \<and>
        resolve_and_sync e ident lp fs1 = (r, fs', rest)"
    then obtain prelude fs1 rest where
      evs: "evs = prelude @ rest" and prelude: "\<forall>ev \<in> set prelude. \<not> is_sync_call ev"
      and nofail: "\<forall>p x. Ev_makedirs p (Some x) \<notin> set prelude"
      and target: "Ev_makedirs lp None \<in> set prelude"
      and parent: "os_path_dirname lp \<noteq> [] \<and> \<not> os_path_exists e fs (os_path_dirname lp)
           \<longrightarrow> Ev_makedirs (os_path_dirname lp) None \<in> set prelude"
      and rest: "resolve_and_sync e ident lp fs1 = (r, fs', rest)"
      by blast
    have "\<forall>p x. Ev_makedirs p (Some x) \<notin> set rest"
      using resolve_and_sync_kinds [OF rest] by fastforce
    with nofail evs have 2: "\<not> (\<exists>p x. Ev_makedirs p (Some x) \<in> set evs)" by simp
    have 1: "set prelude \<subseteq> set (take i evs)" if "i < length evs" "is_sync_call (evs ! i)" for i
      using after_setup [OF evs prelude that] by simp
    show ?thesis using 1 2 target parent by blast
  qed
qed

theorem directories_before_any_call_witness:
  "is_sync_call (snd (snd (download_folder ex_env ''Reports'' ''new/out'' Map.empty)) ! 8) \<and>
   os_path_dirname ''new/out'' = ''new'' \<and>
   \<not> os_path_exists ex_env Map.empty ''new'' \<and>
   Ev_makedirs ''new/out'' None
     \<in> set (take 8 (snd (snd (download_folder ex_env ''Reports'' ''new/out'' Map.empty)))) \<and>
   Ev_makedirs ''new'' None
     \<in> set (take 8 (snd (snd (download_folder ex_env ''Reports'' ''new/out'' Map.empty)))) \<and>
   Ev_makedirs ''new'' (Some (OSError ''PermissionError''))
     \<in> set (snd (snd (download_folder ex_env_denied ''Reports'' ''new/out'' Map.empty))) \<and>
   fst (download_folder ex_env_denied ''Reports'' ''new/out'' Map.empty) = None \<and>
   filter is_sync_call (snd (snd (download_folder ex_env_denied ''Reports'' ''new/out'' Map.empty)))
     = []"
  using directories_before_any_call
      [OF run_collapse [of "download_folder ex_env ''Reports'' ''new/out'' Map.empty"]]
    directories_before_any_call [OF ex_denied_events]
  by (simp add: ex_new_out_events ex_denied_events os_path_dirname_def rstrip_sep_def sep_def
      os_path_exists_def)

subsection \<open>C5: an identifier of the shape of an id is not looked up\<close>

text \<open>
  C5. In a run of \<open>download_folder\<close> with an identifier of 33 alphanumeric
  characters, no lookup by name is made, every listing call is for the identifier
  itself, and the listing call is made whenever the service is ready and no
  \<^verbatim>\<open>os.makedirs\<close> raised. With any other identifier the lookup by name is made
  whenever the service is ready and no \<^verbatim>\<open>os.makedirs\<close> raised, and every listing
  call and every call for a file comes after it.
\<close>

theorem canonical_id_bypasses_lookup:
  assumes run: "download_folder e ident lp fs = (r, fs', evs)"
  shows "(length ident = 33 \<and> isalnum ident \<longrightarrow>
            (\<forall>n. Ev_lookup n \<notin> set evs) \<and>
            (\<forall>f l. Ev_list f l \<in> set evs \<longrightarrow> f = ident) \<and>
            (service_ready e \<and> (\<forall>p x. Ev_makedirs p (Some x) \<notin> set evs)
               \<longrightarrow> Ev_list ident (children e ident) \<in> set evs)) \<and>
         (\<not> (length ident = 33 \<and> isalnum ident) \<longrightarrow>
            (service_ready e \<and> (\<forall>p x. Ev_makedirs p (Some x) \<notin> set evs)
               \<longrightarrow> Ev_lookup ident \<in> set evs) \<and>
            (\<forall>i < length evs. is_listing_call (evs ! i) \<or> is_file_call (evs ! i)
               \<longrightarrow> Ev_lookup ident \<in> set (take i evs)))"
proof (cases "service_ready e")
  case False
  with run show ?thesis by (simp add: download_folder_def)
next
  case True
  from download_folder_phases [OF run True] show ?thesis
  proof
    assume "r = None \<and> (\<forall>ev \<in> set evs. \<not> is_sync_call ev) \<and> (\<exists>p x. Ev_makedirs p (Some x) \<in> set evs)"
    then have none: "\<forall>ev \<in> set evs. \<not> is_sync_call ev" and f: "\<exists>p x. Ev_makedirs p (Some x) \<in> set evs"
      by blast+
    have a: "\<forall>n. Ev_lookup n \<notin> set evs" using none is_sync_call_simps(5) by blast
    have b: "\<forall>f l. Ev_list f l \<notin> set evs" using none is_sync_call_simps(6) by blast
    have c: "\<not> (is_listing_call (evs ! i) \<or> is_file_call (evs ! i))" if "i < length evs" for i
      using none that not_sync_call_not_others nth_mem by blast
    show ?thesis using a b c f by blast
  next
    assume "\<exists>prelude fs0 fs1 rest. evs = prelude @ rest \<and> (\<forall>ev \<in> set prelude. \<not> is_sync_call ev) \<and>
        (\<forall>ev \<in> set prelude. \<not> is_success_report ev) \<and>
        (\<forall>p x. Ev_makedirs p (Some x) \<notin> set prelude) \<and>
        Ev_makedirs lp None \<in> set prelude \<and>
        (os_path_dirname lp \<noteq> [] \<and> \<not> os_path_exists e fs (os_path_dirname lp)
           \<longrightarrow> Ev_makedirs (os_path_dirname lp) None \<in> set prelude) \<and>
        os_makedirs e lp fs0 = Inr fs1 \<and>
        resolve_and_sync e ident lp fs1 = (r, fs', rest)"
    then obtain prelude fs1 rest where
      evs: "evs = prelude @ rest" and prelude: "\<forall>ev \<in> set prelude. \<not> is_sync_call ev"
      and rest: "resolve_and_sync e ident lp fs1 = (r, fs', rest)"
      by blast
    have s1: "\<forall>n. Ev_lookup n \<notin> set prelude" using prelude is_sync_call_simps(5) by blast
    have s2: "\<forall>f l. Ev_list f l \<notin> set prelude" using prelude is_sync_call_simps(6) by blast
    show ?thesis
    proof (cases "length ident = 33 \<and> isalnum ident")
      case shape: True
      from resolve_direct_events [OF shape rest] obtain post where
        r: "rest = [Print (Msg_downloading_from ident), Ev_list ident (children e ident)] @ post"
        and post: "\<forall>ev \<in> set post. is_file_call ev \<or> is_quiet ev"
        by blast
      have p1: "\<forall>n. Ev_lookup n \<notin> set post"
        using post is_file_call_not_others is_quiet_not_others is_lookup_call.simps(1) by blast
      have p2: "\<forall>f l. Ev_list f l \<notin> set post"
        using post is_file_call_not_others is_quiet_not_others is_listing_call.simps(1) by blast
      show ?thesis using shape evs r s1 s2 p1 p2 by auto
    next
      case noshape: False
      from resolve_by_name_events [OF noshape rest] obtain post where r: "rest = Ev_lookup ident # post"
        by blast
      have "Ev_lookup ident \<in> set (take i evs)"
        if i: "i < length evs" and c: "is_listing_call (evs ! i) \<or> is_file_call (evs ! i)" for i
      proof -
        have evs2: "evs = (prelude @ [Ev_lookup ident]) @ post" using evs r by simp
        have "\<forall>ev \<in> set (prelude @ [Ev_lookup ident]). \<not> (is_listing_call ev \<or> is_file_call ev)"
          using prelude not_sync_call_not_others by auto
        from after_setup [OF evs2 this i c] show ?thesis by auto
      qed
      then show ?thesis using noshape evs r by auto
    qed
  qed
qed

theorem canonical_id_bypasses_lookup_witness:
  "length ex_id33 = 33 \<and> isalnum ex_id33 \<and>
   (\<forall>n. Ev_lookup n \<notin> set (snd (snd (download_folder ex_env ex_id33 ''out'' Map.empty)))) \<and>
   Ev_list ex_id33 (children ex_env ex_id33)
     \<in> set (snd (snd (download_folder ex_env ex_id33 ''out'' Map.empty))) \<and>
   \<not> (length ''Reports'' = 33 \<and> isalnum ''Reports'') \<and>
   is_listing_call (snd (snd (download_folder ex_env ''Reports'' ''new/out'' Map.empty)) ! 10) \<and>
   Ev_lookup ''Reports''
     \<in> set (take 10 (snd (snd (download_folder ex_env ''Reports'' ''new/out'' Map.empty))))"
  using canonical_id_bypasses_lookup
      [OF run_collapse [of "download_folder ex_env ex_id33 ''out'' Map.empty"]]
    canonical_id_bypasses_lookup
      [OF run_collapse [of "download_folder ex_env ''Reports'' ''new/out'' Map.empty"]]
  by (simp add: ex_new_out_events ex_id33_events) (simp add: ex_id33_def ex_env_def isalnum_def isalnum_char_def)

text \<open>
  The shape test of line 239 beyond ASCII: a Latin-1 letter is alphanumeric, the
  multiplication sign and the hyphen are not, and 33 times \<^verbatim>\<open>U+00E9\<close> has the shape
  of an id.
\<close>

lemma isalnum_char_latin1:
  "isalnum_char (CHR 0xE9) \<and> \<not> isalnum_char (CHR 0xD7) \<and> \<not> isalnum_char (CHR ''-'')"
  by (simp add: isalnum_char_def)

lemma shape_latin1:
  "length (replicate 33 (CHR 0xE9)) = 33 \<and> isalnum (replicate 33 (CHR 0xE9))"
  by (simp add: isalnum_def isalnum_char_def list_all_iff)

subsection \<open>C7: the exits of \<open>download_folder\<close>\<close>

text \<open>A failed \<^verbatim>\<open>os.makedirs\<close> ends the run, with its message last.\<close>

lemma makedirs_failure_last:
  assumes run: "download_folder e ident lp fs = (r, fs', evs)"
    and f: "Ev_makedirs p (Some x) \<in> set evs"
  shows "r = None \<and> (last evs = Print (Msg_parent_failed x) \<or> last evs = Print (Msg_target_failed x))"
proof -
  have ready: "service_ready e" using run f by (auto simp: download_folder_def split: if_splits)
  let ?parent = "os_path_dirname lp"
  let ?pre = "[Print (Msg_attempting lp), Print (Msg_absolute_path lp)]"
  have target: "r = None \<and> (last evs = Print (Msg_parent_failed x) \<or> last evs = Print (Msg_target_failed x))"
    if t: "create_target e ident lp fs0 = (r, fs', tevs)" and evs: "evs = pre @ tevs"
      and nf: "\<forall>p x. Ev_makedirs p (Some x) \<notin> set pre"
    for fs0 tevs pre
  proof (cases "os_makedirs e lp fs0")
    case (Inl y)
    with t evs nf f show ?thesis by (auto simp: create_target_def)
  next
    case (Inr fs1)
    with t obtain rest where rest: "resolve_and_sync e ident lp fs1 = (r, fs', rest)"
      and tevs: "tevs = [Ev_makedirs lp None, Print (Msg_target_ready lp)] @ rest"
      by (auto simp: create_target_def preceded_by_eq)
    have "\<forall>p x. Ev_makedirs p (Some x) \<notin> set rest"
      using resolve_and_sync_kinds [OF rest] by fastforce
    with evs tevs nf f show ?thesis by auto
  qed
  show ?thesis
  proof (cases "?parent \<noteq> [] \<and> \<not> os_path_exists e fs ?parent")
    case True
    show ?thesis
    proof (cases "os_makedirs e ?parent fs")
      case (Inl y)
      with run ready True f show ?thesis by (auto simp: download_folder_def Let_def)
    next
      case (Inr fs0)
      let ?pre2 = "?pre @ [Ev_exists ?parent False, Print (Msg_parent_missing ?parent),
                        Ev_makedirs ?parent None, Print Msg_parent_created]"
      obtain tevs where t: "create_target e ident lp fs0 = (r, fs', tevs)" and evs: "evs = ?pre2 @ tevs"
        using run ready True Inr by (auto simp: download_folder_def Let_def preceded_by_eq)
      show ?thesis by (rule target [OF t evs]) auto
    qed
  next
    case False
    let ?pre2 = "?pre @ (if ?parent \<noteq> [] then [Ev_exists ?parent True] else [])"
    obtain tevs where t: "create_target e ident lp fs = (r, fs', tevs)" and evs: "evs = ?pre2 @ tevs"
      using run ready False by (auto simp: download_folder_def Let_def preceded_by_eq split: if_splits)
    show ?thesis by (rule target [OF t evs]) auto
  qed
qed

lemma sync_files_empty:
  assumes "sync_files e fid lp fs = (r, fs', evs)" and "Ev_list f (Inr []) \<in> set evs"
  shows "r = None \<and> fs' = fs \<and>
         evs = [Print (Msg_downloading_from fid), Ev_list fid (Inr []), Print Msg_no_files]"
proof -
  from sync_files_kinds [OF assms(1)] obtain rest where
    evs: "evs = [Print (Msg_downloading_from fid), Ev_list fid (children e fid)] @ rest"
    and rest: "\<forall>ev \<in> set rest. is_file_call ev \<or> is_quiet ev"
    by blast
  have "Ev_list f (Inr []) \<notin> set rest"
    using rest is_file_call_not_others is_quiet_not_others is_listing_call.simps(1) by blast
  with evs assms(2) have "children e fid = Inr []" by auto
  with assms(1) show ?thesis by (simp add: sync_files_def list_files_in_folder_def)
qed

lemma resolve_empty_listing:
  assumes "resolve_and_sync e ident lp fs = (r, fs', rest)" and "Ev_list f (Inr []) \<in> set rest"
  shows "r = None \<and> fs' = fs \<and> last rest = Print Msg_no_files \<and> (\<forall>ev \<in> set rest. \<not> is_file_call ev)"
proof (cases "length ident = 33 \<and> isalnum ident")
  case True
  with assms have "sync_files e ident lp fs = (r, fs', rest)" by (simp add: resolve_and_sync_def)
  from sync_files_empty [OF this assms(2)] show ?thesis by auto
next
  case False
  obtain g gevs where g: "get_folder_id e ident = (g, gevs)" by (cases "get_folder_id e ident")
  from get_folder_id_kinds [OF g] obtain grest where
    gevs: "gevs = Ev_lookup ident # grest" and grest: "\<forall>ev \<in> set grest. is_quiet ev"
    by blast
  have g1: "\<forall>ev \<in> set gevs. \<not> is_file_call ev" using gevs grest is_quiet_not_others by auto
  have g2: "Ev_list f (Inr []) \<notin> set gevs" using gevs grest by auto
  show ?thesis
  proof (cases "\<exists>fid. g = Inr (Some fid) \<and> fid \<noteq> []")
    case True
    then obtain fid where fid: "g = Inr (Some fid)" "fid \<noteq> []" by blast
    with assms False g obtain sevs where s: "sync_files e fid lp fs = (r, fs', sevs)" and
      evs: "rest = gevs @ sevs"
      by (auto simp: resolve_and_sync_def preceded_by_eq)
    from evs g2 assms(2) have "Ev_list f (Inr []) \<in> set sevs" by simp
    from sync_files_empty [OF s this] evs g1 show ?thesis by auto
  next
    case F2: False
    with assms(1) False g have "rest = gevs \<or> rest = gevs @ [Print (Msg_folder_not_found ident)]"
      by (auto simp: resolve_and_sync_def split: sum.splits option.splits if_splits)
    with g2 assms(2) show ?thesis by auto
  qed
qed

lemma resolve_not_found:
  assumes "\<not> (length ident = 33 \<and> isalnum ident)" and "folders_by_name e ident = Inr []"
  shows "resolve_and_sync e ident lp fs =
           (None, fs, [Ev_lookup ident, Print (Msg_folder_not_found ident)])"
  using assms by (auto simp: resolve_and_sync_def get_folder_id_def)

lemma ex_not_found_run:
  "download_folder ex_env ''Nope'' ''out'' Map.empty =
     (None, [''out'' \<mapsto> Dir],
      [Print (Msg_attempting ''out''), Print (Msg_absolute_path ''out''),
       Ev_makedirs ''out'' None, Print (Msg_target_ready ''out''),
       Ev_lookup ''Nope'', Print (Msg_folder_not_found ''Nope'')])"
  by (simp add: download_folder_def create_target_def resolve_and_sync_def get_folder_id_def
      isalnum_def ex_env_def
      os_path_exists_def os_makedirs_def mkdir_all_def ancestors_def is_file_def
      os_path_dirname_def rstrip_sep_def sep_def Let_def)

lemma ex_id33_result: "fst (download_folder ex_env ex_id33 ''out'' Map.empty) = None"
  by (simp add: download_folder_def create_target_def resolve_and_sync_def sync_files_def
      list_files_in_folder_def isalnum_def isalnum_char_def ex_id33_def ex_env_def
      os_path_exists_def os_makedirs_def mkdir_all_def ancestors_def is_file_def
      os_path_dirname_def rstrip_sep_def sep_def Let_def)

lemma ex_new_out_result: "fst (download_folder ex_env ''Reports'' ''new/out'' Map.empty) = None"
  by (simp add: download_folder_def create_target_def resolve_and_sync_def sync_files_def
      list_files_in_folder_def get_folder_id_def ex_files_def isalnum_def
      download_file_def ex_env_def startswith_def endswith_def
      export_formats_def extensions_def transfer_and_save_def os_write_def os_path_exists_def
      os_makedirs_def mkdir_all_def ancestors_def is_file_def
      os_path_join_def os_path_dirname_def rstrip_sep_def sep_def Let_def)

text \<open>
  C7, as the claim states it, asks for results a caller can tell apart, and for the
  result \<^verbatim>\<open>SyncResult{0,0}\<close> of an empty listing. Every \<^verbatim>\<open>return\<close> of
  \<open>download_folder\<close> is a bare one: in the example the run that cannot create the
  parent directory, the run that finds no folder, the run with an empty listing and
  the run that downloads two of four files all return the same value, \<^verbatim>\<open>None\<close>, and
  the run with the empty listing reports no count.
\<close>

theorem exit_conditions_same_result_counterexample:
  "Print (Msg_parent_failed (OSError ''PermissionError''))
     \<in> set (snd (snd (download_folder ex_env_denied ''Reports'' ''new/out'' Map.empty))) \<and>
   Print (Msg_folder_not_found ''Nope'')
     \<in> set (snd (snd (download_folder ex_env ''Nope'' ''out'' Map.empty))) \<and>
   Print Msg_no_files \<in> set (snd (snd (download_folder ex_env ex_id33 ''out'' Map.empty))) \<and>
   Print (Msg_complete 2 4)
     \<in> set (snd (snd (download_folder ex_env ''Reports'' ''new/out'' Map.empty))) \<and>
   fst (download_folder ex_env_denied ''Reports'' ''new/out'' Map.empty)
     = fst (download_folder ex_env ''Nope'' ''out'' Map.empty) \<and>
   fst (download_folder ex_env ''Nope'' ''out'' Map.empty)
     = fst (download_folder ex_env ex_id33 ''out'' Map.empty) \<and>
   fst (download_folder ex_env ex_id33 ''out'' Map.empty)
     = fst (download_folder ex_env ''Reports'' ''new/out'' Map.empty) \<and>
   (\<forall>k n. Print (Msg_complete k n)
      \<notin> set (snd (snd (download_folder ex_env ex_id33 ''out'' Map.empty))))"
  by (simp add: ex_denied_events ex_not_found_run ex_id33_events ex_id33_result
      ex_new_out_events ex_new_out_result)

text \<open>
  C7, amended. With the service ready, each of the three exits makes
  \<open>download_folder\<close> return \<^verbatim>\<open>None\<close>, and they differ in the message printed last:
  \<^item> an \<^verbatim>\<open>os.makedirs\<close> that raised: the message of line 227 or of line 235;
  \<^item> no folder of the given name (and an identifier not of the shape of an id): the
    message of line 246, with no listing call and no call for a file;
  \<^item> an empty listing: the message of line 255, with no call for a file.
\<close>

theorem exit_conditions_return_None:
  assumes run: "download_folder e ident lp fs = (r, fs', evs)" and ready: "service_ready e"
  shows "(\<forall>p x. Ev_makedirs p (Some x) \<in> set evs \<longrightarrow>
            r = None \<and>
            (last evs = Print (Msg_parent_failed x) \<or> last evs = Print (Msg_target_failed x))) \<and>
         (\<not> (length ident = 33 \<and> isalnum ident) \<and> folders_by_name e ident = Inr [] \<and>
          (\<forall>p x. Ev_makedirs p (Some x) \<notin> set evs) \<longrightarrow>
            r = None \<and> last evs = Print (Msg_folder_not_found ident) \<and>
            (\<forall>ev \<in> set evs. \<not> is_listing_call ev \<and> \<not> is_file_call ev)) \<and>
         (\<forall>f. Ev_list f (Inr []) \<in> set evs \<longrightarrow>
            r = None \<and> last evs = Print Msg_no_files \<and> (\<forall>ev \<in> set evs. \<not> is_file_call ev))"
proof -
  have 1: "r = None \<and>
            (last evs = Print (Msg_parent_failed x) \<or> last evs = Print (Msg_target_failed x))"
    if "Ev_makedirs p (Some x) \<in> set evs" for p x
    using makedirs_failure_last [OF run that] .
  from download_folder_phases [OF run ready]
  have 23: "(\<not> (length ident = 33 \<and> isalnum ident) \<and> folders_by_name e ident = Inr [] \<and>
          (\<forall>p x. Ev_makedirs p (Some x) \<notin> set evs) \<longrightarrow>
            r = None \<and> last evs = Print (Msg_folder_not_found ident) \<and>
            (\<forall>ev \<in> set evs. \<not> is_listing_call ev \<and> \<not> is_file_call ev)) \<and>
         (\<forall>f. Ev_list f (Inr []) \<in> set evs \<longrightarrow>
            r = None \<and> last evs = Print Msg_no_files \<and> (\<forall>ev \<in> set evs. \<not> is_file_call ev))"
  proof
    assume "r = None \<and> (\<forall>ev \<in> set evs. \<not> is_sync_call ev) \<and> (\<exists>p x. Ev_makedirs p (Some x) \<in> set evs)"
    then have none: "\<forall>ev \<in> set evs. \<not> is_sync_call ev" and f: "\<exists>p x. Ev_makedirs p (Some x) \<in> set evs"
      by blast+
    have "\<forall>f l. Ev_list f l \<notin> set evs" using none is_sync_call_simps(6) by blast
    with f show ?thesis by blast
  next
    assume "\<exists>prelude fs0 fs1 rest. evs = prelude @ rest \<and> (\<forall>ev \<in> set prelude. \<not> is_sync_call ev) \<and>
        (\<forall>ev \<in> set prelude. \<not> is_success_report ev) \<and>
        (\<forall>p x. Ev_makedirs p (Some x) \<notin> set prelude) \<and>
        Ev_makedirs lp None \<in> set prelude \<and>
        (os_path_dirname lp \<noteq> [] \<and> \<not> os_path_exists e fs (os_path_dirname lp)
           \<longrightarrow> Ev_makedirs (os_path_dirname lp) None \<in> set prelude) \<and>
        os_makedirs e lp fs0 = Inr fs1 \<and>
        resolve_and_sync e ident lp fs1 = (r, fs', rest)"
    then obtain prelude fs1 rest where
      evs: "evs = prelude @ rest" and prelude: "\<forall>ev \<in> set prelude. \<not> is_sync_call ev"
      and rest: "resolve_and_sync e ident lp fs1 = (r, fs', rest)"
      by blast
    have p1: "\<forall>ev \<in> set prelude. \<not> is_listing_call ev \<and> \<not> is_file_call ev"
      using prelude not_sync_call_not_others by blast
    have a: "r = None \<and> last evs = Print (Msg_folder_not_found ident) \<and>
            (\<forall>ev \<in> set evs. \<not> is_listing_call ev \<and> \<not> is_file_call ev)"
      if "\<not> (length ident = 33 \<and> isalnum ident)" "folders_by_name e ident = Inr []"
      using rest resolve_not_found [OF that, of lp fs1] evs p1 by auto
    have b: "r = None \<and> last evs = Print Msg_no_files \<and> (\<forall>ev \<in> set evs. \<not> is_file_call ev)"
      if "Ev_list f (Inr []) \<in> set evs" for f
    proof -
      have "Ev_list f (Inr []) \<notin> set prelude" using prelude is_sync_call_simps(6) by blast
      with that evs have in_rest: "Ev_list f (Inr []) \<in> set rest" by simp
      then have "rest \<noteq> []" by auto
      with resolve_empty_listing [OF rest in_rest] evs p1 show ?thesis by auto
    qed
    show ?thesis using a b by blast
  qed
  show ?thesis using 1 23 by blast
qed

theorem exit_conditions_return_None_witness:
  "service_ready ex_env_denied \<and> service_ready ex_env \<and>
   Ev_makedirs ''new'' (Some (OSError ''PermissionError''))
     \<in> set (snd (snd (download_folder ex_env_denied ''Reports'' ''new/out'' Map.empty))) \<and>
   last (snd (snd (download_folder ex_env_denied ''Reports'' ''new/out'' Map.empty)))
     = Print (Msg_parent_failed (OSError ''PermissionError'')) \<and>
   \<not> (length ''Nope'' = 33 \<and> isalnum ''Nope'') \<and> folders_by_name ex_env ''Nope'' = Inr [] \<and>
   last (snd (snd (download_folder ex_env ''Nope'' ''out'' Map.empty)))
     = Print (Msg_folder_not_found ''Nope'') \<and>
   Ev_list ex_id33 (Inr []) \<in> set (snd (snd (download_folder ex_env ex_id33 ''out'' Map.empty))) \<and>
   last (snd (snd (download_folder ex_env ex_id33 ''out'' Map.empty))) = Print Msg_no_files \<and>
   fst (download_folder ex_env ex_id33 ''out'' Map.empty) = None"
proof -
  have r1: "service_ready ex_env_denied" and r2: "service_ready ex_env"
    by (simp_all add: ex_env_denied_def ex_env_def)
  show ?thesis
    using exit_conditions_return_None [OF ex_denied_events r1]
      exit_conditions_return_None [OF ex_not_found_run r2]
      exit_conditions_return_None
        [OF run_collapse [of "download_folder ex_env ex_id33 ''out'' Map.empty"] r2]
    by (simp add: ex_denied_events ex_not_found_run ex_id33_events r1 r2)
       (simp add: ex_env_def)
qed

subsection \<open>C2: every listed file is attempted\<close>

lemma attempted_append: "attempted (xs @ ys) = attempted xs @ attempted ys"
  by (induction xs rule: attempted.induct) simp_all

lemma succeeded_append: "succeeded (xs @ ys) = succeeded xs + succeeded ys"
  by (simp add: succeeded_def)

lemma attempted_none: "\<forall>ev \<in> set xs. \<not> is_file_call ev \<Longrightarrow> attempted xs = []"
  by (induction xs rule: attempted.induct) simp_all

lemma succeeded_none: "\<forall>ev \<in> set xs. \<not> is_success_report ev \<Longrightarrow> succeeded xs = 0"
  by (simp add: succeeded_def)

lemma succeeded_simps [simp]:
  "succeeded [] = 0"
  "succeeded (ev # evs) = (if is_success_report ev then Suc (succeeded evs) else succeeded evs)"
  by (simp_all add: succeeded_def)

lemma download_file_observed:
  assumes "download_file e i n p fs = (ok, fs', evs)"
  shows "attempted evs = [i] \<and> succeeded evs = 0"
  using assms
  by (auto simp: download_file_def transfer_and_save_def Let_def succeeded_def
      split: sum.splits option.splits if_splits)

lemma download_each_observed:
  "download_each e lp n i s files fs = (k, fs', evs) \<Longrightarrow>
   attempted evs = map rf_id files \<and> k = s + succeeded evs \<and> succeeded evs \<le> length files"
proof (induction files arbitrary: i s fs k fs' evs)
  case Nil
  then show ?case by simp
next
  case (Cons f files)
  obtain ok fs1 evs1 where df: "download_file e (rf_id f) (rf_name f) (os_path_join lp (rf_name f)) fs = (ok, fs1, evs1)"
    by (metis prod_cases3)
  with Cons.prems obtain evs2 where
    rest: "download_each e lp n (i + 1) (if ok then s + 1 else s) files fs1 = (k, fs', evs2)"
    and evs: "evs = (Print (Msg_downloading i n (rf_name f)) # evs1
                @ (if ok then [Print (Msg_downloaded (rf_name f))] else [])) @ evs2"
    by (auto simp: Let_def preceded_by_eq)
  from Cons.IH [OF rest] download_file_observed [OF df] evs show ?case
    by (auto simp: attempted_append succeeded_append)
qed

lemma sync_files_observed:
  assumes "sync_files e fid lp fs = (r, fs', sevs)" and "children e fid = Inr files"
  shows "attempted sevs = map rf_id files \<and> succeeded sevs \<le> length files \<and> sevs \<noteq> [] \<and>
         (files \<noteq> [] \<longrightarrow> r = None \<and> last sevs = Print (Msg_complete (succeeded sevs) (length files)))"
proof (cases "files = []")
  case True
  with assms show ?thesis by (auto simp: sync_files_def list_files_in_folder_def succeeded_def)
next
  case False
  obtain k fs2 levs where l: "download_each e lp (length files) 1 0 files fs = (k, fs2, levs)"
    by (metis prod_cases3)
  with assms False have r: "r = None" and
    sevs: "sevs = [Print (Msg_downloading_from fid), Ev_list fid (Inr files),
                  Print (Msg_found (length files))] @ levs @ [Print (Msg_complete k (length files))]"
    by (auto simp: sync_files_def list_files_in_folder_def)
  have "succeeded sevs = succeeded levs" unfolding sevs by (simp add: succeeded_def)
  moreover have "attempted sevs = attempted levs" unfolding sevs by (simp add: attempted_append)
  ultimately show ?thesis using download_each_observed [OF l] r sevs by simp
qed

lemma choose_folder_reports:
  "choose_folder folders as = (r, evs) \<Longrightarrow> \<forall>ev \<in> set evs. \<not> is_success_report ev"
  by (induction folders as arbitrary: r evs rule: choose_folder.induct)
     (auto simp: Let_def split: prod.splits if_splits)

lemma get_folder_id_reports:
  assumes "get_folder_id e name = (r, evs)"
  shows "\<forall>ev \<in> set evs. \<not> is_success_report ev"
  using assms choose_folder_reports
  by (fastforce simp: get_folder_id_def split: sum.splits if_splits prod.splits)

lemma sync_files_listing:
  assumes "sync_files e fid lp fs = (r, fs', sevs)" and "Ev_list f l \<in> set sevs"
  shows "f = fid \<and> l = children e fid"
proof -
  from sync_files_kinds [OF assms(1)] obtain rest where
    evs: "sevs = [Print (Msg_downloading_from fid), Ev_list fid (children e fid)] @ rest"
    and rest: "\<forall>ev \<in> set rest. is_file_call ev \<or> is_quiet ev"
    by blast
  have "Ev_list f l \<notin> set rest"
    using rest is_file_call_not_others is_quiet_not_others is_listing_call.simps(1) by blast
  with evs assms(2) show ?thesis by auto
qed

lemma resolve_listing:
  assumes "resolve_and_sync e ident lp fs = (r, fs', rest)" and "Ev_list fid (Inr files) \<in> set rest"
  shows "\<exists>gevs sevs. rest = gevs @ sevs \<and>
           (\<forall>ev \<in> set gevs. \<not> is_file_call ev \<and> \<not> is_success_report ev) \<and>
           sync_files e fid lp fs = (r, fs', sevs) \<and> children e fid = Inr files"
proof (cases "length ident = 33 \<and> isalnum ident")
  case True
  with assms have s: "sync_files e ident lp fs = (r, fs', rest)" by (simp add: resolve_and_sync_def)
  from sync_files_listing [OF s assms(2)] s show ?thesis by force
next
  case False
  obtain g gevs where g: "get_folder_id e ident = (g, gevs)" by (cases "get_folder_id e ident")
  from get_folder_id_kinds [OF g] obtain grest where
    gevs: "gevs = Ev_lookup ident # grest" and grest: "\<forall>ev \<in> set grest. is_quiet ev"
    by blast
  have g1: "\<forall>ev \<in> set gevs. \<not> is_file_call ev \<and> \<not> is_success_report ev"
    using gevs grest is_quiet_not_others get_folder_id_reports [OF g] by auto
  have g2: "Ev_list fid (Inr files) \<notin> set gevs" using gevs grest by auto
  show ?thesis
  proof (cases "\<exists>fid. g = Inr (Some fid) \<and> fid \<noteq> []")
    case True
    then obtain fid' where fid: "g = Inr (Some fid')" "fid' \<noteq> []" by blast
    with assms False g obtain sevs where s: "sync_files e fid' lp fs = (r, fs', sevs)" and
      evs: "rest = gevs @ sevs"
      by (auto simp: resolve_and_sync_def preceded_by_eq)
    from evs g2 assms(2) have "Ev_list fid (Inr files) \<in> set sevs" by simp
    from sync_files_listing [OF s this] s evs g1 show ?thesis by auto
  next
    case F2: False
    with assms(1) False g have "rest = gevs \<or> rest = gevs @ [Print (Msg_folder_not_found ident)]"
      by (auto simp: resolve_and_sync_def split: sum.splits option.splits if_splits)
    with g2 assms(2) show ?thesis by auto
  qed
qed

text \<open>
  C2. In a run of \<open>download_folder\<close> whose listing call answered the files
  \<open>files\<close>, the files attempted are exactly those of the listing, in its order (so
  their number is the number \<open>N\<close> of files listed, whatever the outcome of each), the
  number of successes is at most \<open>N\<close>, and when \<open>N\<close> is not zero the run returns
  after printing the two counts, successes and \<open>N\<close>, in the message of line 273.
\<close>

theorem every_listed_file_attempted:
  assumes run: "download_folder e ident lp fs = (r, fs', evs)"
    and listed: "Ev_list fid (Inr files) \<in> set evs"
  shows "attempted evs = map rf_id files \<and>
         length (attempted evs) = length files \<and>
         succeeded evs \<le> length files \<and>
         (files \<noteq> [] \<longrightarrow>
            r = None \<and> last evs = Print (Msg_complete (succeeded evs) (length files)))"
proof -
  have ready: "service_ready e" using run listed by (auto simp: download_folder_def split: if_splits)
  from download_folder_phases [OF run ready] show ?thesis
  proof
    assume "r = None \<and> (\<forall>ev \<in> set evs. \<not> is_sync_call ev) \<and> (\<exists>p x. Ev_makedirs p (Some x) \<in> set evs)"
    then have "\<not> is_sync_call (Ev_list fid (Inr files))" using listed by blast
    then show ?thesis by simp
  next
    assume "\<exists>prelude fs0 fs1 rest. evs = prelude @ rest \<and> (\<forall>ev \<in> set prelude. \<not> is_sync_call ev) \<and>
        (\<forall>ev \<in> set prelude. \<not> is_success_report ev) \<and>
        (\<forall>p x. Ev_makedirs p (Some x) \<notin> set prelude) \<and>
        Ev_makedirs lp None \<in> set prelude \<and>
        (os_path_dirname lp \<noteq> [] \<and> \<not> os_path_exists e fs (os_path_dirname lp)
           \<longrightarrow> Ev_makedirs (os_path_dirname lp) None \<in> set prelude) \<and>
        os_makedirs e lp fs0 = Inr fs1 \<and>
        resolve_and_sync e ident lp fs1 = (r, fs', rest)"
    then obtain prelude fs1 rest where
      evs: "evs = prelude @ rest" and p1: "\<forall>ev \<in> set prelude. \<not> is_sync_call ev"
      and p2: "\<forall>ev \<in> set prelude. \<not> is_success_report ev"
      and rest: "resolve_and_sync e ident lp fs1 = (r, fs', rest)"
      by blast
    have "Ev_list fid (Inr files) \<notin> set prelude" using p1 is_sync_call_simps(6) by blast
    with listed evs have "Ev_list fid (Inr files) \<in> set rest" by simp
    from resolve_listing [OF rest this] obtain gevs sevs where
      r: "rest = gevs @ sevs"
      and g: "\<forall>ev \<in> set gevs. \<not> is_file_call ev \<and> \<not> is_success_report ev"
      and s: "sync_files e fid lp fs1 = (r, fs', sevs)" and c: "children e fid = Inr files"
      by blast
    have "\<forall>ev \<in> set prelude. \<not> is_file_call ev" using p1 not_sync_call_not_others by blast
    then have a: "attempted evs = attempted sevs"
      using g by (simp add: evs r attempted_append attempted_none)
    have b: "succeeded evs = succeeded sevs"
      using g p2 by (simp add: evs r succeeded_append succeeded_none)
    from sync_files_observed [OF s c] have "sevs \<noteq> []" by simp
    then have l: "last evs = last sevs" by (simp add: evs r)
    show ?thesis using sync_files_observed [OF s c] a b l by simp
  qed
qed

theorem every_listed_file_attempted_witness:
  "Ev_list ''F1'' (Inr ex_files)
     \<in> set (snd (snd (download_folder ex_env ''Reports'' ''new/out'' Map.empty))) \<and>
   attempted (snd (snd (download_folder ex_env ''Reports'' ''new/out'' Map.empty)))
     = [''txt1'', ''doc1'', ''form1'', ''gone''] \<and>
   succeeded (snd (snd (download_folder ex_env ''Reports'' ''new/out'' Map.empty))) = 2 \<and>
   length ex_files = 4 \<and>
   last (snd (snd (download_folder ex_env ''Reports'' ''new/out'' Map.empty)))
     = Print (Msg_complete 2 4)"
proof -
  have l: "Ev_list ''F1'' (Inr ex_files)
     \<in> set (snd (snd (download_folder ex_env ''Reports'' ''new/out'' Map.empty)))"
    by (simp add: ex_new_out_events)
  show ?thesis
    using every_listed_file_attempted
      [OF run_collapse [of "download_folder ex_env ''Reports'' ''new/out'' Map.empty"] l]
    by (simp add: ex_new_out_events ex_files_def)
qed

subsection \<open>The filesystem after a run is the one before with the run's writes applied\<close>





































subsection \<open>C8: a second run leaves the destination as the first one left it\<close>



subsection \<open>C10: files of the same name\<close>




end
